theory Spec2Isabelle
  imports Complex_Main "HOL-Library.Multiset"
begin

section \<open>Universal Offline OCR: the job table, the page loop and the language cache\<close>

text \<open>
  The development embeds the parts of \<^verbatim>\<open>ocr-app/src/app/page.tsx\<close> that own the job
  table (\<^verbatim>\<open>handleFiles\<close>, \<^verbatim>\<open>processFile\<close>, the pending-dispatch effect,
  \<^verbatim>\<open>combineSegments\<close>, \<^verbatim>\<open>handleLanguageToggle\<close>, \<^verbatim>\<open>handleLanguageImport\<close>) and the
  service worker's \<^verbatim>\<open>fetch\<close> listener that keeps language data in Cache Storage.

  JavaScript numbers that hold fractions (confidence, progress, durations) are exact
  real numbers here; page indices and timestamps are naturals; strings are byte lists.
  The helpers of \<^verbatim>\<open>@/lib/...\<close> (decoders, the recognition worker, the language
  importer) are not part of the embedded code: what they return or throw is an input of
  the model. \<^verbatim>\<open>@/lib/cacheLanguage\<close> is not among the sources either; its single-flight
  cache is given as section 4.2 of the specification describes it.
\<close>

subsection \<open>Data model\<close>

datatype JobStatus = Pending | Processing | Completed | Error

record RecognizedSegment =
  pageIndex :: nat
  text_s :: string
  confidence :: real

record OcrJob =
  id_j :: string
  name_j :: string
  type_j :: string
  size_j :: nat
  status :: JobStatus
  languages :: "string list"
  progress :: real
  startedAt :: nat
  completedAt :: "nat option"
  error :: "string option"
  segments :: "RecognizedSegment list"
  extractedText :: string
  warnings :: "string list"

text \<open>The browser's \<^verbatim>\<open>File\<close>: only the fields the code reads.\<close>

record File =
  name_f :: string
  type_f :: string
  size_f :: nat

record LanguageOption =
  code :: string
  label :: string
  path :: string
  builtIn :: bool

subsection \<open>String helpers of the JavaScript runtime\<close>

definition digit :: "nat \<Rightarrow> char" where
  "digit d = ''0123456789'' ! (d mod 10)"

fun show_nat :: "nat \<Rightarrow> string" where
  "show_nat n = (if n < 10 then [digit n] else show_nat (n div 10) @ [digit (n mod 10)])"

declare show_nat.simps [simp del]

text \<open>\<^verbatim>\<open>Number.prototype.toFixed(d)\<close> on an exact value below \<open>10\<^sup>2\<^sup>1\<close>: the sign, then the
  magnitude rounded to \<open>d\<close> decimals, ties upwards.\<close>

definition toFixed :: "nat \<Rightarrow> real \<Rightarrow> string" where
  "toFixed d x =
     (let n = nat \<lfloor>\<bar>x\<bar> * 10 ^ d + 1 / 2\<rfloor>;
          s = show_nat n;
          m = replicate (Suc d - length s) (CHR ''0'') @ s;
          k = length m - d
      in (if x < 0 then ''-'' else '''') @ take k m @ (if d = 0 then '''' else ''.'' @ drop k m))"

text \<open>\<^verbatim>\<open>String.prototype.trim\<close>, on the ASCII white space and line terminators.\<close>

definition isSpace :: "char \<Rightarrow> bool" where
  "isSpace c = (c \<in> set [CHR '' '', CHR 0x09, CHR 0x0A, CHR 0x0B, CHR 0x0C, CHR 0x0D])"

definition trim :: "string \<Rightarrow> string" where
  "trim s = rev (dropWhile isSpace (rev (dropWhile isSpace s)))"

fun join :: "string \<Rightarrow> string list \<Rightarrow> string" where
  "join sep [] = ''''"
| "join sep [x] = x"
| "join sep (x # y # ys) = x @ sep @ join sep (y # ys)"

definition startsWith :: "string \<Rightarrow> string \<Rightarrow> bool" where
  "startsWith s p = (take (length p) s = p)"

definition endsWith :: "string \<Rightarrow> string \<Rightarrow> bool" where
  "endsWith s p = (length p \<le> length s \<and> drop (length s - length p) s = p)"

definition includes_l :: "'a list \<Rightarrow> 'a \<Rightarrow> bool" where
  "includes_l xs x = (x \<in> set xs)"

subsection \<open>File classification\<close>

definition SUPPORTED_FILE_TYPES :: "string list" where
  "SUPPORTED_FILE_TYPES =
     [''image/png'', ''image/jpeg'', ''image/webp'', ''image/gif'', ''image/bmp'',
      ''application/pdf'',
      ''application/vnd.openxmlformats-officedocument.wordprocessingml.document'']"

definition readableFileType :: "string \<Rightarrow> string \<Rightarrow> string" where
  "readableFileType mimeType fileName =
     (if startsWith mimeType ''image/'' then ''Image''
      else if mimeType = ''application/pdf'' \<or> endsWith fileName ''.pdf'' then ''PDF''
      else if endsWith fileName ''.docx'' then ''Word Document''
      else if mimeType \<noteq> '''' then mimeType else ''Unknown'')"

definition isImage :: "File \<Rightarrow> bool" where
  "isImage file = startsWith (type_f file) ''image/''"

definition isPdf :: "File \<Rightarrow> bool" where
  "isPdf file = (type_f file = ''application/pdf'' \<or> endsWith (name_f file) ''.pdf'')"

definition isDocx :: "File \<Rightarrow> bool" where
  "isDocx file =
     (type_f file = ''application/vnd.openxmlformats-officedocument.wordprocessingml.document''
      \<or> endsWith (name_f file) ''.docx'')"

subsection \<open>\<^verbatim>\<open>combineSegments\<close> and \<^verbatim>\<open>aggregatedText\<close>\<close>

text \<open>\<^verbatim>\<open>segments.sort((a, b) => a.pageIndex - b.pageIndex)\<close>: a stable sort on the page
  index.\<close>

definition sortSegments :: "RecognizedSegment list \<Rightarrow> RecognizedSegment list" where
  "sortSegments segs = sort_key pageIndex segs"

text \<open>The callback of \<^verbatim>\<open>.map((segment, index) => ...)\<close>; \<open>index\<close> is the position in the
  sorted array.\<close>

definition segmentBlock :: "nat \<Rightarrow> RecognizedSegment \<Rightarrow> string" where
  "segmentBlock index segment =
     ''--- Page '' @ show_nat (index + 1) @ '' (Confidence: '' @ toFixed 2 (confidence segment)
       @ ''%) ---'' @ [CHR 0x0A] @ trim (text_s segment) @ [CHR 0x0A]"

definition segmentBlocks :: "RecognizedSegment list \<Rightarrow> string list" where
  "segmentBlocks segs = map (\<lambda>(index, segment). segmentBlock index segment)
                            (enumerate 0 (sortSegments segs))"

definition combineSegments :: "RecognizedSegment list \<Rightarrow> string" where
  "combineSegments segs = join [CHR 0x0A] (segmentBlocks segs)"

definition aggregatedText :: "OcrJob \<Rightarrow> string" where
  "aggregatedText job =
     (if extractedText job \<noteq> '''' then trim (extractedText job) @ [CHR 0x0A, CHR 0x0A] else '''')
       @ combineSegments (segments job)"

subsection \<open>The job table and its updates\<close>

text \<open>A value that a rejected promise or a \<^verbatim>\<open>throw\<close> carries: an \<^verbatim>\<open>Error\<close> object with its
  message, or anything else.\<close>

datatype thrown = ErrorObj string | OtherThrown

definition errorMessage :: "thrown \<Rightarrow> string" where
  "errorMessage e = (case e of ErrorObj m \<Rightarrow> m | OtherThrown \<Rightarrow> ''Unexpected error'')"

text \<open>\<^verbatim>\<open>Partial<OcrJob>\<close> as the list of the properties an object literal sets.\<close>

datatype field =
    Status JobStatus
  | Progress real
  | ErrorF "string option"
  | CompletedAt nat
  | ExtractedText string
  | Warnings "string list"

type_synonym partial = "field list"

fun setField :: "field \<Rightarrow> OcrJob \<Rightarrow> OcrJob" where
  "setField (Status v) job = job\<lparr>status := v\<rparr>"
| "setField (Progress v) job = job\<lparr>progress := v\<rparr>"
| "setField (ErrorF v) job = job\<lparr>error := v\<rparr>"
| "setField (CompletedAt v) job = job\<lparr>completedAt := Some v\<rparr>"
| "setField (ExtractedText v) job = job\<lparr>extractedText := v\<rparr>"
| "setField (Warnings v) job = job\<lparr>warnings := v\<rparr>"

text \<open>\<^verbatim>\<open>{ ...job, ...partial }\<close>\<close>

definition spread :: "OcrJob \<Rightarrow> partial \<Rightarrow> OcrJob" where
  "spread job p = fold setField p job"

text \<open>The two writers of the table, \<^verbatim>\<open>updateJob\<close> and \<^verbatim>\<open>appendSegment\<close>, as the updates
  they queue with \<^verbatim>\<open>setJobs\<close>. \<open>applyToJob\<close> is the callback of \<^verbatim>\<open>prev.map\<close>.\<close>

datatype action = UpdateJob string partial | AppendSegment string RecognizedSegment

fun applyToJob :: "action \<Rightarrow> OcrJob \<Rightarrow> OcrJob" where
  "applyToJob (UpdateJob i p) job = (if id_j job = i then spread job p else job)"
| "applyToJob (AppendSegment i segment) job =
     (if id_j job = i then job\<lparr>segments := segments job @ [segment]\<rparr> else job)"

definition applyAction :: "action \<Rightarrow> OcrJob list \<Rightarrow> OcrJob list" where
  "applyAction a prev = map (applyToJob a) prev"

text \<open>The successive contents of the table while a list of queued updates is applied.\<close>

fun snapshots :: "OcrJob list \<Rightarrow> action list \<Rightarrow> OcrJob list list" where
  "snapshots js [] = [js]"
| "snapshots js (a # as) = js # snapshots (applyAction a js) as"

fun jobSnapshots :: "OcrJob \<Rightarrow> action list \<Rightarrow> OcrJob list" where
  "jobSnapshots job [] = [job]"
| "jobSnapshots job (a # as) = job # jobSnapshots (applyToJob a job) as"

text \<open>The progress of the entry at position \<open>k\<close> of the table, over a sequence of tables.\<close>

definition progressAt :: "nat \<Rightarrow> OcrJob list list \<Rightarrow> real list" where
  "progressAt k tables = map (\<lambda>table. progress (table ! k)) tables"

subsection \<open>\<^verbatim>\<open>processFile\<close>\<close>

text \<open>What one call of \<^verbatim>\<open>recognizeImage\<close> does: the fractions it passes to the progress
  callback, in order, the time it takes in milliseconds, and how its promise settles.\<close>

record Recognition =
  reported :: "real list"
  duration :: real
  outcome :: "thrown + (string \<times> real)"

text \<open>The imported helpers as inputs: \<open>'c\<close> is a rendered page, \<open>'b\<close> an image blob.
  \<^verbatim>\<open>recognizeImage\<close> is indexed by the page it is called for.\<close>

record ('c, 'b) world =
  ensureLanguageCached :: "LanguageOption \<Rightarrow> thrown option"
  processImageFile :: "File \<Rightarrow> thrown + 'c list"
  processPdfFile :: "File \<Rightarrow> thrown + 'c list"
  extractDocxText :: "File \<Rightarrow> thrown + string"
  extractDocxImages :: "File \<Rightarrow> thrown + 'b list"
  blobsToRenderedPages :: "'b list \<Rightarrow> thrown + 'c list"
  recognizeImage :: "nat \<Rightarrow> 'c \<Rightarrow> string list \<Rightarrow> Recognition"
  now :: nat

text \<open>\<^verbatim>\<open>await Promise.all(...)\<close>: the first rejection, in list order.\<close>

fun promiseAll :: "thrown option list \<Rightarrow> thrown option" where
  "promiseAll [] = None"
| "promiseAll (None # rs) = promiseAll rs"
| "promiseAll (Some e # rs) = Some e"

text \<open>Lines 161 to 181: the pages, the warnings so far and the extracted text.\<close>

definition resolveFile ::
  "('c, 'b) world \<Rightarrow> File \<Rightarrow> thrown + ('c list \<times> string list \<times> string)" where
  "resolveFile w file =
     (if isImage file then
        (case processImageFile w file of Inl e \<Rightarrow> Inl e | Inr canvases \<Rightarrow> Inr (canvases, [], ''''))
      else if isPdf file then
        (case processPdfFile w file of Inl e \<Rightarrow> Inl e | Inr canvases \<Rightarrow> Inr (canvases, [], ''''))
      else if isDocx file then
        (case extractDocxText w file of
           Inl e \<Rightarrow> Inl e
         | Inr extracted \<Rightarrow>
             (case extractDocxImages w file of
                Inl e \<Rightarrow> Inl e
              | Inr imageBlobs \<Rightarrow>
                  if length imageBlobs = 0 then
                    Inr ([], [''No embedded images found in the document; OCR is limited to textual extraction.''], extracted)
                  else
                    (case blobsToRenderedPages w imageBlobs of
                       Inl e \<Rightarrow> Inl e
                     | Inr canvases \<Rightarrow> Inr (canvases, [], extracted))))
      else Inl (ErrorObj ''Unsupported file type''))"

definition durationWarning :: "nat \<Rightarrow> real \<Rightarrow> string" where
  "durationWarning index d =
     ''Page '' @ show_nat (index + 1) @ '' took '' @ toFixed 1 (d / 1000)
       @ ''s to process. Consider splitting large documents.''"

definition pageProgress :: "nat \<Rightarrow> real \<Rightarrow> nat \<Rightarrow> real" where
  "pageProgress index p pageCount = (of_nat index + p) / of_nat (if pageCount = 0 then 1 else pageCount)"

text \<open>The \<^verbatim>\<open>for\<close> loop over \<^verbatim>\<open>canvases\<close>, from \<open>index\<close> on: the updates it queues, and
  either what was thrown or the final \<^verbatim>\<open>warnings\<close> array.\<close>

fun pageLoop ::
  "('c, 'b) world \<Rightarrow> string \<Rightarrow> string list \<Rightarrow> nat \<Rightarrow> nat \<Rightarrow> 'c list \<Rightarrow> string list
     \<Rightarrow> action list \<times> (thrown + string list)" where
  "pageLoop w jobId languageList pageCount index [] ws = ([], Inr ws)"
| "pageLoop w jobId languageList pageCount index (canvas # rest) ws =
     (let r = recognizeImage w index canvas languageList;
          callbacks = map (\<lambda>p. UpdateJob jobId [Progress (pageProgress index p pageCount)]) (reported r)
      in case outcome r of
           Inl e \<Rightarrow> (callbacks, Inl e)
         | Inr (txt, conf) \<Rightarrow>
             (let ws' = (if duration r > 15000 then ws @ [durationWarning index (duration r)] else ws)
              in case pageLoop w jobId languageList pageCount (index + 1) rest ws' of
                   (acts, res) \<Rightarrow>
                     (callbacks
                        @ [AppendSegment jobId \<lparr>pageIndex = index, text_s = txt, confidence = conf\<rparr>,
                           UpdateJob jobId [Progress (pageProgress index 1 pageCount), Warnings ws']]
                        @ acts, res)))"

text \<open>The segment that \<^verbatim>\<open>appendSegment\<close> receives for page \<open>index\<close> when its recognition
  succeeds; \<open>None\<close> when it throws.\<close>

definition recognized ::
  "('c, 'b) world \<Rightarrow> string list \<Rightarrow> nat \<Rightarrow> 'c \<Rightarrow> RecognizedSegment option" where
  "recognized w languageList index canvas =
     (case outcome (recognizeImage w index canvas languageList) of
        Inl e \<Rightarrow> None
      | Inr (t, c) \<Rightarrow> Some \<lparr>pageIndex = index, text_s = t, confidence = c\<rparr>)"

text \<open>Lines 153 to 155: the registry entries of the job's languages; codes that are not
  registered are dropped.\<close>

definition languageEntries :: "LanguageOption list \<Rightarrow> OcrJob \<Rightarrow> LanguageOption list" where
  "languageEntries availableLanguages job =
     List.map_filter (\<lambda>c. find (\<lambda>lang. code lang = c) availableLanguages) (languages job)"

text \<open>The body of the \<^verbatim>\<open>try\<close> block: the updates queued, and what was thrown, if anything.\<close>

definition tryBlock ::
  "('c, 'b) world \<Rightarrow> LanguageOption list \<Rightarrow> OcrJob \<Rightarrow> File \<Rightarrow> string
     \<Rightarrow> action list \<times> thrown option" where
  "tryBlock w availableLanguages job file jobId =
     (case promiseAll (map (ensureLanguageCached w) (languageEntries availableLanguages job)) of
        Some e \<Rightarrow> ([], Some e)
      | None \<Rightarrow>
          (case resolveFile w file of
             Inl e \<Rightarrow> ([], Some e)
           | Inr (canvases, ws0, extracted) \<Rightarrow>
               (case pageLoop w jobId (languages job) (length canvases) 0 canvases
                       (if length canvases = 0 \<and> extracted = ''''
                        then ws0 @ [''No visual content found for OCR.''] else ws0) of
                  (acts, Inl e) \<Rightarrow> (acts, Some e)
                | (acts, Inr ws) \<Rightarrow>
                    (acts @ [UpdateJob jobId [Status Completed, CompletedAt (now w),
                                              ExtractedText extracted, Warnings ws, Progress 1]],
                     None))))"

definition processFileActions ::
  "('c, 'b) world \<Rightarrow> LanguageOption list \<Rightarrow> OcrJob \<Rightarrow> File \<Rightarrow> string \<Rightarrow> action list" where
  "processFileActions w availableLanguages job file jobId =
     UpdateJob jobId [Status Processing, Progress 0, ErrorF None]
       # (case tryBlock w availableLanguages job file jobId of
            (acts, None) \<Rightarrow> acts
          | (acts, Some e) \<Rightarrow> acts @ [UpdateJob jobId [Status Error, ErrorF (Some (errorMessage e))]])"

text \<open>\<^verbatim>\<open>jobs.find((entry) => entry.id === jobId)\<close>\<close>

definition findJob :: "string \<Rightarrow> OcrJob list \<Rightarrow> OcrJob option" where
  "findJob jobId js = find (\<lambda>entry. id_j entry = jobId) js"

record AppState =
  jobs :: "OcrJob list"
  fileMap :: "string \<Rightarrow> File option"

text \<open>One call of \<^verbatim>\<open>processFile(jobId)\<close>, run to its end. The \<^verbatim>\<open>jobs\<close> of the closure are
  the table at the time of the call.\<close>

definition processFile ::
  "('c, 'b) world \<Rightarrow> LanguageOption list \<Rightarrow> AppState \<Rightarrow> string \<Rightarrow> AppState" where
  "processFile w availableLanguages s jobId =
     (case findJob jobId (jobs s) of
        None \<Rightarrow> s
      | Some job \<Rightarrow>
          (case fileMap s jobId of
             None \<Rightarrow> s
           | Some file \<Rightarrow>
               \<lparr>jobs = fold applyAction (processFileActions w availableLanguages job file jobId) (jobs s),
                fileMap = (fileMap s)(jobId := None)\<rparr>))"

text \<open>The effect that dispatches pending jobs: the ids \<^verbatim>\<open>processFile\<close> is called with.\<close>

definition pendingDispatch :: "OcrJob list \<Rightarrow> string list" where
  "pendingDispatch js = map id_j (filter (\<lambda>job. status job = Pending) js)"

text \<open>The effect itself: \<^verbatim>\<open>processFile\<close> is called for every pending job, each call run to
  its end.\<close>

definition dispatchEffect ::
  "('c, 'b) world \<Rightarrow> LanguageOption list \<Rightarrow> AppState \<Rightarrow> AppState" where
  "dispatchEffect w availableLanguages s =
     fold (\<lambda>jobId s'. processFile w availableLanguages s' jobId) (pendingDispatch (jobs s)) s"

text \<open>The job id an update is addressed to.\<close>

fun target :: "action \<Rightarrow> string" where
  "target (UpdateJob i p) = i"
| "target (AppendSegment i segment) = i"

subsection \<open>Intake: \<^verbatim>\<open>handleFiles\<close> and the language selection\<close>

definition accepts :: "File \<Rightarrow> bool" where
  "accepts file =
     (includes_l SUPPORTED_FILE_TYPES (type_f file) \<or> isImage file \<or> isPdf file \<or> isDocx file)"

definition unsupportedJob :: "string \<Rightarrow> nat \<Rightarrow> string list \<Rightarrow> string list \<Rightarrow> OcrJob" where
  "unsupportedJob jobId clock selectedLanguages rejected =
     \<lparr>id_j = jobId, name_j = ''Unsupported files'', type_j = ''System'', size_j = 0,
      status = Error, languages = selectedLanguages, progress = 0, startedAt = clock,
      completedAt = None, error = Some (''Unsupported files: '' @ join '', '' rejected),
      segments = [], extractedText = '''', warnings = []\<rparr>"

definition pendingJob :: "string \<Rightarrow> nat \<Rightarrow> string list \<Rightarrow> File \<Rightarrow> OcrJob" where
  "pendingJob jobId clock selectedLanguages file =
     \<lparr>id_j = jobId, name_j = name_f file, type_j = readableFileType (type_f file) (name_f file),
      size_j = size_f file, status = Pending, languages = selectedLanguages, progress = 0,
      startedAt = clock, completedAt = None, error = None,
      segments = [], extractedText = '''', warnings = []\<rparr>"

definition admit :: "nat \<Rightarrow> string list \<Rightarrow> string \<times> File \<Rightarrow> AppState \<Rightarrow> AppState" where
  "admit clock selectedLanguages entry s =
     (case entry of (jobId, file) \<Rightarrow>
        \<lparr>jobs = pendingJob jobId clock selectedLanguages file # jobs s,
         fileMap = (fileMap s)(jobId \<mapsto> file)\<rparr>)"

text \<open>\<^verbatim>\<open>handleFiles(fileList)\<close>. \<open>uuid k\<close> is the result of the \<open>k\<close>-th call of \<^verbatim>\<open>uuid()\<close>,
  \<open>clock\<close> the reading of \<^verbatim>\<open>Date.now()\<close>; \<open>None\<close> is a \<^verbatim>\<open>null\<close> file list.\<close>

definition handleFiles ::
  "(nat \<Rightarrow> string) \<Rightarrow> nat \<Rightarrow> string list \<Rightarrow> File list option \<Rightarrow> AppState \<Rightarrow> AppState" where
  "handleFiles uuid clock selectedLanguages fileList s =
     (case fileList of
        None \<Rightarrow> s
      | Some files \<Rightarrow>
          (let accepted = filter accepts files;
               rejected = map name_f (filter (\<lambda>file. \<not> accepts file) files);
               k = (if length rejected > 0 then 1 else 0);
               s1 = (if length rejected > 0
                     then s\<lparr>jobs := unsupportedJob (uuid 0) clock selectedLanguages rejected # jobs s\<rparr>
                     else s)
           in fold (admit clock selectedLanguages)
                   (zip (map uuid [k ..< k + length accepted]) accepted) s1))"

text \<open>\<^verbatim>\<open>useState<string[]>(["eng"])\<close>: the selection when the page is opened.\<close>

definition initialSelectedLanguages :: "string list" where
  "initialSelectedLanguages = [''eng'']"

definition handleLanguageToggle :: "string \<Rightarrow> string list \<Rightarrow> string list" where
  "handleLanguageToggle c prev =
     (if includes_l prev c then
        (let next = filter (\<lambda>item. item \<noteq> c) prev in if length next > 0 then next else prev)
      else prev @ [c])"

subsection \<open>\<^verbatim>\<open>handleLanguageImport\<close>\<close>

text \<open>\<^verbatim>\<open>toLowerCase\<close> and \<^verbatim>\<open>toUpperCase\<close> on the ASCII letters; other bytes stay.\<close>

definition toLowerChar :: "char \<Rightarrow> char" where
  "toLowerChar c =
     (case map_of (zip ''ABCDEFGHIJKLMNOPQRSTUVWXYZ'' ''abcdefghijklmnopqrstuvwxyz'') c of
        Some d \<Rightarrow> d
      | None \<Rightarrow> c)"

definition toUpperChar :: "char \<Rightarrow> char" where
  "toUpperChar c =
     (case map_of (zip ''abcdefghijklmnopqrstuvwxyz'' ''ABCDEFGHIJKLMNOPQRSTUVWXYZ'') c of
        Some d \<Rightarrow> d
      | None \<Rightarrow> c)"

definition toLowerCase :: "string \<Rightarrow> string" where
  "toLowerCase s = map toLowerChar s"

definition toUpperCase :: "string \<Rightarrow> string" where
  "toUpperCase s = map toUpperChar s"

record LanguagePanel =
  availableLanguages :: "LanguageOption list"
  selectedLanguages :: "string list"
  languageCodeInput :: string
  languageFile :: "File option"
  isImportingLanguage :: bool

text \<open>\<open>importLanguageFromFile\<close> is the imported helper: it yields the code and the path, or
  throws. An option built here has no \<^verbatim>\<open>builtIn\<close> property, which reads as false.\<close>

definition handleLanguageImport ::
  "(string \<Rightarrow> File \<Rightarrow> thrown + string \<times> string) \<Rightarrow> LanguagePanel \<Rightarrow> LanguagePanel" where
  "handleLanguageImport importLanguageFromFile s =
     (case languageFile s of
        None \<Rightarrow> s
      | Some file \<Rightarrow>
          if trim (languageCodeInput s) = '''' then s
          else
            (case importLanguageFromFile (toLowerCase (languageCodeInput s)) file of
               Inl e \<Rightarrow> s\<lparr>isImportingLanguage := False\<rparr>
             | Inr (c, p) \<Rightarrow>
                 s\<lparr>availableLanguages :=
                     availableLanguages s @ [\<lparr>code = c, label = toUpperCase c, path = p, builtIn = False\<rparr>],
                   selectedLanguages :=
                     (if includes_l (selectedLanguages s) c then selectedLanguages s
                      else selectedLanguages s @ [c]),
                   languageCodeInput := '''',
                   languageFile := None,
                   isImportingLanguage := False\<rparr>))"

text \<open>The lookup \<^verbatim>\<open>availableLanguages.find((lang) => lang.code === code)\<close> of
  \<^verbatim>\<open>processFile\<close>.\<close>

definition findLanguage :: "LanguageOption list \<Rightarrow> string \<Rightarrow> LanguageOption option" where
  "findLanguage available c = find (\<lambda>lang. code lang = c) available"

subsection \<open>The service worker's \<^verbatim>\<open>fetch\<close> listener\<close>

record Request =
  url :: string
  pathname :: string

record Response =
  status_r :: nat
  statusText :: string
  body :: string

text \<open>\<^verbatim>\<open>new Response("Language data unavailable offline.", {status: 503, statusText})\<close>.
  The constructor throws a \<^verbatim>\<open>TypeError\<close> when the status text is not a reason phrase (tab,
  space, the visible characters and the bytes from 128 on); \<open>None\<close> is that throw.
  An absent \<^verbatim>\<open>statusText\<close> reads as the empty text.\<close>

definition validStatusText :: "string \<Rightarrow> bool" where
  "validStatusText t =
     list_all (\<lambda>c. c = CHR 0x09 \<or> (32 \<le> (of_char c :: nat) \<and> (of_char c :: nat) \<noteq> 127)) t"

definition unavailable :: "thrown \<Rightarrow> Response option" where
  "unavailable e =
     (let t = (case e of ErrorObj m \<Rightarrow> m | OtherThrown \<Rightarrow> '''')
      in if validStatusText t
         then Some \<lparr>status_r = 503, statusText = t, body = ''Language data unavailable offline.''\<rparr>
         else None)"

text \<open>A handler of one \<^verbatim>\<open>fetch\<close> event runs from \<^verbatim>\<open>await\<close> to \<^verbatim>\<open>await\<close>: it has not looked
  the request up yet (\<open>Start\<close>); it waits for the network (\<open>Fetching\<close>); it has answered
  with the fetched response while its \<^verbatim>\<open>cache.put\<close>, which is not awaited, has not stored
  yet (\<open>Storing\<close>); it has answered and nothing is left to do (\<open>Done\<close>); building the 503
  answer threw, so the promise given to \<^verbatim>\<open>respondWith\<close> is rejected (\<open>Rejected\<close>); or the
  path is not under \<^verbatim>\<open>/tesseract/\<close> and the request is left to the browser (\<open>Passed\<close>).\<close>

datatype pc = Start | Fetching | Storing Response | Done Response | Rejected | Passed

text \<open>The response the page has received from a handler, if any.\<close>

definition answer :: "pc \<Rightarrow> Response option" where
  "answer p = (case p of Storing r \<Rightarrow> Some r | Done r \<Rightarrow> Some r | _ \<Rightarrow> None)"

text \<open>The cache \<^verbatim>\<open>ocr-language-cache\<close> by request URL, the network fetches issued so far, and
  the handlers by event number.\<close>

record Worker =
  cache :: "string \<Rightarrow> Response option"
  fetched :: "Request list"
  pcs :: "nat \<Rightarrow> pc"

text \<open>One turn of handler \<open>i\<close>. \<open>reqs i\<close> is the request of event \<open>i\<close> and \<open>net i\<close> is how
  the network fetch of handler \<open>i\<close> settles. A response that \<^verbatim>\<open>fetch\<close> resolves with is put
  into the cache whatever its status: the listener does not look at \<^verbatim>\<open>response.ok\<close>. The
  put is taken to succeed; it stores in a turn of its own, after the answer.\<close>

definition step ::
  "(nat \<Rightarrow> Request) \<Rightarrow> (nat \<Rightarrow> thrown + Response) \<Rightarrow> nat \<Rightarrow> Worker \<Rightarrow> Worker" where
  "step reqs net i s =
     (case pcs s i of
        Start \<Rightarrow>
          if startsWith (pathname (reqs i)) ''/tesseract/'' then
            (case cache s (url (reqs i)) of
               Some cached \<Rightarrow> s\<lparr>pcs := (pcs s)(i := Done cached)\<rparr>
             | None \<Rightarrow> s\<lparr>fetched := fetched s @ [reqs i], pcs := (pcs s)(i := Fetching)\<rparr>)
          else s\<lparr>pcs := (pcs s)(i := Passed)\<rparr>
      | Fetching \<Rightarrow>
          (case net i of
             Inr response \<Rightarrow> s\<lparr>pcs := (pcs s)(i := Storing response)\<rparr>
           | Inl e \<Rightarrow>
               (case unavailable e of
                  Some r \<Rightarrow> s\<lparr>pcs := (pcs s)(i := Done r)\<rparr>
                | None \<Rightarrow> s\<lparr>pcs := (pcs s)(i := Rejected)\<rparr>))
      | Storing response \<Rightarrow>
          s\<lparr>cache := (cache s)(url (reqs i) \<mapsto> response), pcs := (pcs s)(i := Done response)\<rparr>
      | Done r \<Rightarrow> s
      | Rejected \<Rightarrow> s
      | Passed \<Rightarrow> s)"

definition run ::
  "(nat \<Rightarrow> Request) \<Rightarrow> (nat \<Rightarrow> thrown + Response) \<Rightarrow> nat list \<Rightarrow> Worker \<Rightarrow> Worker" where
  "run reqs net schedule s = fold (step reqs net) schedule s"

text \<open>The worker before any event is handled.\<close>

definition idle :: "(string \<Rightarrow> Response option) \<Rightarrow> Worker" where
  "idle c = \<lparr>cache = c, fetched = [], pcs = (\<lambda>i. Start)\<rparr>"

subsection \<open>The artifact cache of the specification\<close>

text \<open>
  Modelled from the spec: \<^verbatim>\<open>ensureCached\<close> of the ArtifactCache (section 4.2), which the
  application imports as \<^verbatim>\<open>ensureLanguageCached\<close> from \<^verbatim>\<open>@/lib/cacheLanguage\<close>; that module is
  not among the sources. In the words of the specification: if the artifact is cached the
  call returns at once; otherwise, if no fetch for the key is in flight, it starts one and
  publishes a shared handle; if one is in flight, it awaits that handle. When the fetch
  succeeds the entry is marked cached and all waiters are released with success; when it
  fails all waiters are released with the same failure, the entry is not marked cached
  and the handle is cleared.

  A call is identified by a number. \<open>inFlight key\<close> is the shared handle: the calls that
  wait for the fetch of \<open>key\<close>. \<open>started\<close> lists the fetches begun, \<open>returned\<close> what each
  call has returned: \<open>None\<close> inside \<open>Some\<close> is success.
\<close>

record ArtifactCache =
  cachedKey :: "string \<Rightarrow> bool"
  inFlight :: "string \<Rightarrow> nat list option"
  started :: "string list"
  returned :: "nat \<Rightarrow> thrown option option"

text \<open>Modelled from the spec: what happens to the cache, a call of \<^verbatim>\<open>ensureCached\<close> by caller
  \<open>c\<close> for a key, or the fetch of a key settling with success (\<open>None\<close>) or a failure.\<close>

datatype cacheEvent = EnsureCached nat string | FetchSettles string "thrown option"

text \<open>Modelled from the spec: all waiters are released with the outcome of the fetch.\<close>

fun release :: "thrown option \<Rightarrow> nat list \<Rightarrow> (nat \<Rightarrow> thrown option option) \<Rightarrow> (nat \<Rightarrow> thrown option option)" where
  "release r [] f = f"
| "release r (c # cs) f = release r cs (f(c := Some r))"

text \<open>Modelled from the spec: \<^verbatim>\<open>ensureCached\<close> and the settling of a fetch, as described above.\<close>

fun cacheStep :: "cacheEvent \<Rightarrow> ArtifactCache \<Rightarrow> ArtifactCache" where
  "cacheStep (EnsureCached c key) s =
     (if cachedKey s key then s\<lparr>returned := (returned s)(c := Some None)\<rparr>
      else case inFlight s key of
             None \<Rightarrow> s\<lparr>inFlight := (inFlight s)(key \<mapsto> [c]), started := started s @ [key]\<rparr>
           | Some waiters \<Rightarrow> s\<lparr>inFlight := (inFlight s)(key \<mapsto> waiters @ [c])\<rparr>)"
| "cacheStep (FetchSettles key r) s =
     (case inFlight s key of
        None \<Rightarrow> s
      | Some waiters \<Rightarrow>
          s\<lparr>cachedKey := (cachedKey s)(key := (r = None \<or> cachedKey s key)),
            inFlight := (inFlight s)(key := None),
            returned := release r waiters (returned s)\<rparr>)"

text \<open>Modelled from the spec: the events of the cache in the order in which they happen.\<close>

definition cacheRun :: "cacheEvent list \<Rightarrow> ArtifactCache \<Rightarrow> ArtifactCache" where
  "cacheRun events s = fold cacheStep events s"

subsection \<open>Scenarios\<close>

text \<open>Worlds for concrete runs: every language is cached, every decoder yields the pages
  \<open>pages\<close> and no text, a document has no embedded images, and \<open>rec i\<close> is what
  \<^verbatim>\<open>recognizeImage\<close> does on page \<open>i\<close>.\<close>

definition demoWorld :: "nat list \<Rightarrow> (nat \<Rightarrow> Recognition) \<Rightarrow> (nat, nat) world" where
  "demoWorld pages rec =
     \<lparr>ensureLanguageCached = (\<lambda>language. None),
      processImageFile = (\<lambda>file. Inr pages),
      processPdfFile = (\<lambda>file. Inr pages),
      extractDocxText = (\<lambda>file. Inr ''''),
      extractDocxImages = (\<lambda>file. Inr []),
      blobsToRenderedPages = (\<lambda>blobs. Inr blobs),
      recognizeImage = (\<lambda>index canvas languageList. rec index),
      now = 1000\<rparr>"

definition okPage :: "real list \<Rightarrow> string \<Rightarrow> real \<Rightarrow> Recognition" where
  "okPage ps t c = \<lparr>reported = ps, duration = 100, outcome = Inr (t, c)\<rparr>"

definition failedPage :: Recognition where
  "failedPage = \<lparr>reported = [], duration = 100, outcome = Inl (ErrorObj ''recognition failed'')\<rparr>"

definition helloWorld :: "nat \<Rightarrow> Recognition" where
  "helloWorld i = (if i = 0 then okPage [1 / 2] ''Hello'' (481 / 5) else okPage [1 / 2] ''World'' 91)"

definition secondPageFails :: "nat \<Rightarrow> Recognition" where
  "secondPageFails i = (if i = 1 then failedPage else okPage [1] ''text'' 90)"

text \<open>A recognition whose progress callback goes back from 0.9 to 0.5.\<close>

definition backwardCallbacks :: "nat \<Rightarrow> Recognition" where
  "backwardCallbacks i = okPage [9 / 10, 1 / 2] ''text'' 90"

definition demoFile :: File where
  "demoFile = \<lparr>name_f = ''scan.pdf'', type_f = ''application/pdf'', size_f = 2048\<rparr>"

definition noFiles :: AppState where
  "noFiles = \<lparr>jobs = [], fileMap = (\<lambda>jobId. None)\<rparr>"

text \<open>The state after \<^verbatim>\<open>scan.pdf\<close> was dropped with English selected.\<close>

definition demoState :: AppState where
  "demoState = handleFiles (\<lambda>k. ''job-1'') 0 [''eng''] (Some [demoFile]) noFiles"

definition demoJob :: OcrJob where
  "demoJob = pendingJob ''job-1'' 0 [''eng''] demoFile"

definition notesFile :: File where
  "notesFile = \<lparr>name_f = ''notes.txt'', type_f = ''text/plain'', size_f = 12\<rparr>"

definition demoUuid :: "nat \<Rightarrow> string" where
  "demoUuid k = ''job-'' @ show_nat k"

text \<open>The language panel with the bundled English pack, and an import of a file under
  the code \<^verbatim>\<open>ENG\<close> that succeeds.\<close>

definition bundledEnglish :: LanguageOption where
  "bundledEnglish =
     \<lparr>code = ''eng'', label = ''English'', path = ''/tesseract/eng.traineddata.gz'', builtIn = True\<rparr>"

definition importPanel :: LanguagePanel where
  "importPanel =
     \<lparr>availableLanguages = [bundledEnglish], selectedLanguages = [''eng''],
      languageCodeInput = ''ENG'',
      languageFile = Some \<lparr>name_f = ''eng.traineddata'', type_f = '''', size_f = 4096\<rparr>,
      isImportingLanguage = False\<rparr>"

definition demoImporter :: "string \<Rightarrow> File \<Rightarrow> thrown + string \<times> string" where
  "demoImporter c file = Inr (c, ''/tesseract/imported/'' @ c @ ''.traineddata'')"

text \<open>Requests for the English language data, a server that answers 404 for them, and a
  network that is down.\<close>

definition engRequest :: Request where
  "engRequest =
     \<lparr>url = ''https://ocr.example/tesseract/eng.traineddata.gz'',
      pathname = ''/tesseract/eng.traineddata.gz''\<rparr>"

definition engRequests :: "nat \<Rightarrow> Request" where
  "engRequests i = engRequest"

definition emptyCache :: "string \<Rightarrow> Response option" where
  "emptyCache u = None"

definition notFound :: Response where
  "notFound = \<lparr>status_r = 404, statusText = ''Not Found'', body = ''''\<rparr>"

definition missingNet :: "nat \<Rightarrow> thrown + Response" where
  "missingNet i = Inr notFound"

definition offlineNet :: "nat \<Rightarrow> thrown + Response" where
  "offlineNet i = Inl (ErrorObj ''Failed to fetch'')"

text \<open>Modelled from the spec: an artifact cache with nothing cached and no fetch in flight.\<close>

definition coldCache :: ArtifactCache where
  "coldCache =
     \<lparr>cachedKey = (\<lambda>key. False), inFlight = (\<lambda>key. None), started = [], returned = (\<lambda>c. None)\<rparr>"

section \<open>Properties\<close>

subsection \<open>Display order and page labels\<close>

lemma length_sortSegments: "length (sortSegments segs) = length segs"
  by (simp add: sortSegments_def)

lemma sorted_sortSegments: "sorted (map pageIndex (sortSegments segs))"
  by (simp add: sortSegments_def)

lemma mset_sortSegments: "mset (sortSegments segs) = mset segs"
  by (simp add: sortSegments_def)

lemma segmentBlocks_nth:
  "i < length segs \<Longrightarrow> segmentBlocks segs ! i = segmentBlock i (sortSegments segs ! i)"
  by (simp add: segmentBlocks_def length_sortSegments nth_enumerate_eq)

lemma length_segmentBlocks: "length (segmentBlocks segs) = length segs"
  by (simp add: segmentBlocks_def length_sortSegments)

lemma map_eq_upt_iff:
  "(\<forall>i<length xs. f (xs ! i) = i) \<longleftrightarrow> map f xs = [0..<length xs]"
proof
  assume "\<forall>i<length xs. f (xs ! i) = i"
  then show "map f xs = [0..<length xs]"
    by (intro nth_equalityI) simp_all
next
  assume h: "map f xs = [0..<length xs]"
  show "\<forall>i<length xs. f (xs ! i) = i"
  proof (intro allI impI)
    fix i assume "i < length xs"
    then have "map f xs ! i = f (xs ! i)" and "[0..<length xs] ! i = i" by simp_all
    with h show "f (xs ! i) = i" by simp
  qed
qed

lemma perm_upt_sorted:
  assumes "mset xs = mset [i..<j]" "sorted xs"
  shows "xs = [i..<j]"
  using assms by (metis sorted_list_of_multiset_mset sorted_sort_id sort_upt)

text \<open>The text that \<^verbatim>\<open>join("\n")\<close> produces from the blocks, written out.\<close>

lemma join_Cons: "join sep (x # xs) = x @ concat (map (\<lambda>y. sep @ y) xs)"
  by (induction xs arbitrary: x) simp_all

lemma enumerate_later:
  "0 < n \<Longrightarrow> map (\<lambda>(i, x). (if i = 0 then [] else sep) @ f i x) (enumerate n xs)
            = map (\<lambda>(i, x). sep @ f i x) (enumerate n xs)"
  by (rule map_cong) (auto simp: in_set_enumerate_eq)

lemma join_blocks:
  "join sep (map (\<lambda>(i, x). f i x) (enumerate 0 xs))
     = concat (map (\<lambda>(i, x). (if i = 0 then [] else sep) @ f i x) (enumerate 0 xs))"
proof (cases xs)
  case Nil
  then show ?thesis by simp
next
  case (Cons x xs')
  let ?rest = "enumerate (Suc 0) xs'"
  have "join sep (map (\<lambda>(i, x). f i x) (enumerate 0 xs))
          = f 0 x @ concat (map (\<lambda>y. sep @ y) (map (\<lambda>(i, x). f i x) ?rest))"
    by (simp only: Cons enumerate_simps list.map prod.case join_Cons)
  also have "map (\<lambda>y. sep @ y) (map (\<lambda>(i, x). f i x) ?rest) = map (\<lambda>(i, x). sep @ f i x) ?rest"
    by (simp add: case_prod_unfold)
  also have "map (\<lambda>(i, x). sep @ f i x) ?rest = map (\<lambda>(i, x). (if i = 0 then [] else sep) @ f i x) ?rest"
    by (rule enumerate_later [symmetric]) simp
  also have "f 0 x @ concat (map (\<lambda>(i, x). (if i = 0 then [] else sep) @ f i x) ?rest)
          = concat (map (\<lambda>(i, x). (if i = 0 then [] else sep) @ f i x) (enumerate 0 xs))"
    by (simp add: Cons)
  finally show ?thesis .
qed

lemma combineSegments_text:
  "combineSegments segs
     = concat (map (\<lambda>(i, segment).
                      (if i = 0 then [] else [CHR 0x0A])
                        @ ''--- Page '' @ show_nat (i + 1) @ '' (Confidence: ''
                        @ toFixed 2 (confidence segment) @ ''%) ---'' @ [CHR 0x0A]
                        @ trim (text_s segment) @ [CHR 0x0A])
                   (enumerate 0 (sortSegments segs)))"
proof -
  have "combineSegments segs
          = concat (map (\<lambda>(i, segment). (if i = 0 then [] else [CHR 0x0A]) @ segmentBlock i segment)
                        (enumerate 0 (sortSegments segs)))"
    by (simp only: combineSegments_def segmentBlocks_def join_blocks)
  then show ?thesis by (simp only: segmentBlock_def)
qed

lemma digit_value: "d < 10 \<Longrightarrow> (of_char (digit d) :: nat) - 48 = d"
proof -
  assume "d < 10"
  then have "d \<in> {0, 1, 2, 3, 4, 5, 6, 7, 8, 9}" by auto
  then show ?thesis by (auto simp: digit_def)
qed

lemma read_show: "foldl (\<lambda>a c. 10 * a + ((of_char c :: nat) - 48)) 0 (show_nat n) = n"
proof (induction n rule: show_nat.induct)
  case (1 n)
  show ?case
  proof (cases "n < 10")
    case True
    then show ?thesis by (subst show_nat.simps) (simp add: digit_value)
  next
    case False
    with 1 have "foldl (\<lambda>a c. 10 * a + ((of_char c :: nat) - 48)) 0 (show_nat (n div 10)) = n div 10"
      by simp
    with False show ?thesis
      by (subst show_nat.simps) (simp add: digit_value)
  qed
qed

lemma show_nat_inj: "show_nat m = show_nat n \<longleftrightarrow> m = n"
  by (metis read_show)

text \<open>
  C10. The exported text, character by character: \<^verbatim>\<open>combineSegments\<close> writes one block per
  segment, in ascending page-index order, and the block at position \<open>i\<close> of that order
  (counted from 0) is headed \<^verbatim>\<open>--- Page <i+1> (Confidence: <c>%) ---\<close>, followed by the
  trimmed text of the segment; the blocks are separated by an empty line.
  \<^verbatim>\<open>aggregatedText\<close>, which is what is shown, copied and downloaded, is that text after the
  extracted text of the document, if there is any. The page number of a header is therefore
  the position of the segment among the segments that are present; the headers read as
  page index plus one at every position exactly when the sorted indices are \<open>0, 1, \<dots>\<close>
  without a gap, that is when no segment is missing.
\<close>

theorem combineSegments_labels_by_position:
  "combineSegments segs
     = concat (map (\<lambda>(i, segment).
                      (if i = 0 then [] else [CHR 0x0A])
                        @ ''--- Page '' @ show_nat (i + 1) @ '' (Confidence: ''
                        @ toFixed 2 (confidence segment) @ ''%) ---'' @ [CHR 0x0A]
                        @ trim (text_s segment) @ [CHR 0x0A])
                   (enumerate 0 (sortSegments segs)))
   \<and> aggregatedText job
       = (if extractedText job \<noteq> '''' then trim (extractedText job) @ [CHR 0x0A, CHR 0x0A] else '''')
         @ concat (map (\<lambda>(i, segment).
                      (if i = 0 then [] else [CHR 0x0A])
                        @ ''--- Page '' @ show_nat (i + 1) @ '' (Confidence: ''
                        @ toFixed 2 (confidence segment) @ ''%) ---'' @ [CHR 0x0A]
                        @ trim (text_s segment) @ [CHR 0x0A])
                   (enumerate 0 (sortSegments (segments job))))
   \<and> sorted (map pageIndex (sortSegments segs))
   \<and> mset (sortSegments segs) = mset segs
   \<and> ((\<forall>i<length segs. show_nat (i + 1) = show_nat (pageIndex (sortSegments segs ! i) + 1))
        \<longleftrightarrow> map pageIndex (sortSegments segs) = [0..<length segs])"
proof -
  have "(\<forall>i<length segs. show_nat (i + 1) = show_nat (pageIndex (sortSegments segs ! i) + 1))
        \<longleftrightarrow> (\<forall>i<length (sortSegments segs). pageIndex (sortSegments segs ! i) = i)"
    by (auto simp: show_nat_inj length_sortSegments)
  also have "\<dots> \<longleftrightarrow> map pageIndex (sortSegments segs) = [0..<length segs]"
    using map_eq_upt_iff [of "sortSegments segs" pageIndex] by (simp add: length_sortSegments)
  finally have labels:
    "(\<forall>i<length segs. show_nat (i + 1) = show_nat (pageIndex (sortSegments segs ! i) + 1))
        \<longleftrightarrow> map pageIndex (sortSegments segs) = [0..<length segs]" .
  have "aggregatedText job
       = (if extractedText job \<noteq> '''' then trim (extractedText job) @ [CHR 0x0A, CHR 0x0A] else '''')
         @ combineSegments (segments job)"
    by (simp add: aggregatedText_def)
  then show ?thesis
    using labels combineSegments_text [of segs] sorted_sortSegments [of segs] mset_sortSegments [of segs]
    by (simp only: combineSegments_text [of "segments job"])
qed

lemma show_nat_small: "show_nat 1 = ''1''" "show_nat (Suc 0) = ''1''" "show_nat 2 = ''2''" "show_nat 3 = ''3''"
  "show_nat (Suc (Suc 0)) = ''2''" "show_nat (Suc (Suc (Suc 0))) = ''3''"
  by (simp_all add: show_nat.simps digit_def)

lemma toFixed_values: "toFixed 2 91 = ''91.00''" "toFixed 2 (481 / 5) = ''96.20''"
proof -
  have "nat \<lfloor>\<bar>91 :: real\<bar> * 10 ^ 2 + 1 / 2\<rfloor> = 9100" by simp
  moreover have "show_nat 9100 = ''9100''" by (simp add: show_nat.simps digit_def)
  ultimately show "toFixed 2 91 = ''91.00''" by (simp add: toFixed_def)
  have "nat \<lfloor>\<bar>481 / 5 :: real\<bar> * 10 ^ 2 + 1 / 2\<rfloor> = 9620" by simp
  moreover have "show_nat 9620 = ''9620''" by (simp add: show_nat.simps digit_def)
  ultimately show "toFixed 2 (481 / 5) = ''96.20''" by (simp add: toFixed_def)
qed

text \<open>With pages 0 and 2 present, page 1 missing and the segments stored out of order, the
  exported text is the block of page 0 under \<^verbatim>\<open>--- Page 1\<close>, then the block of page 2 under
  \<^verbatim>\<open>--- Page 2\<close>, not \<^verbatim>\<open>--- Page 3\<close>.\<close>

theorem combineSegments_labels_by_position_witness:
  "aggregatedText (demoJob\<lparr>segments := [\<lparr>pageIndex = 2, text_s = '' b '', confidence = 91\<rparr>,
                                           \<lparr>pageIndex = 0, text_s = ''a'', confidence = 481 / 5\<rparr>]\<rparr>)
     = ''--- Page 1 (Confidence: 96.20%) ---'' @ [CHR 0x0A] @ ''a'' @ [CHR 0x0A] @ [CHR 0x0A]
       @ ''--- Page 2 (Confidence: 91.00%) ---'' @ [CHR 0x0A] @ ''b'' @ [CHR 0x0A]
   \<and> combineSegments [\<lparr>pageIndex = 2, text_s = '' b '', confidence = 91\<rparr>,
                       \<lparr>pageIndex = 0, text_s = ''a'', confidence = 481 / 5\<rparr>]
     = ''--- Page 1 (Confidence: 96.20%) ---'' @ [CHR 0x0A] @ ''a'' @ [CHR 0x0A] @ [CHR 0x0A]
       @ ''--- Page 2 (Confidence: 91.00%) ---'' @ [CHR 0x0A] @ ''b'' @ [CHR 0x0A]
   \<and> (1::nat) < length [\<lparr>pageIndex = 2, text_s = '' b '', confidence = 91\<rparr>,
                         \<lparr>pageIndex = 0, text_s = ''a'', confidence = 481 / 5\<rparr>]
   \<and> show_nat (1 + 1) \<noteq> show_nat (pageIndex (sortSegments
         [\<lparr>pageIndex = 2, text_s = '' b '', confidence = 91\<rparr>,
          \<lparr>pageIndex = 0, text_s = ''a'', confidence = 481 / 5\<rparr>] ! 1) + 1)"
proof -
  let ?segs = "[\<lparr>pageIndex = 2, text_s = '' b '', confidence = 91\<rparr>,
                \<lparr>pageIndex = 0, text_s = ''a'', confidence = 481 / 5\<rparr>]"
  let ?job = "demoJob\<lparr>segments := ?segs\<rparr>"
  have srt: "sortSegments ?segs = [\<lparr>pageIndex = 0, text_s = ''a'', confidence = 481 / 5\<rparr>,
                                   \<lparr>pageIndex = 2, text_s = '' b '', confidence = 91\<rparr>]"
    by (simp add: sortSegments_def)
  have t: "trim '' b '' = ''b''" "trim ''a'' = ''a''" by (simp_all add: trim_def isSpace_def)
  have ex: "extractedText ?job = ''''" "segments ?job = ?segs" by (simp_all add: demoJob_def pendingJob_def)
  note fact = combineSegments_labels_by_position [of ?segs ?job]
  from fact have "combineSegments ?segs
     = ''--- Page 1 (Confidence: 96.20%) ---'' @ [CHR 0x0A] @ ''a'' @ [CHR 0x0A] @ [CHR 0x0A]
       @ ''--- Page 2 (Confidence: 91.00%) ---'' @ [CHR 0x0A] @ ''b'' @ [CHR 0x0A]"
    by (simp add: srt t show_nat_small toFixed_values)
  moreover from fact have "aggregatedText ?job
     = ''--- Page 1 (Confidence: 96.20%) ---'' @ [CHR 0x0A] @ ''a'' @ [CHR 0x0A] @ [CHR 0x0A]
       @ ''--- Page 2 (Confidence: 91.00%) ---'' @ [CHR 0x0A] @ ''b'' @ [CHR 0x0A]"
    by (simp add: ex srt t show_nat_small toFixed_values)
  moreover have "map pageIndex (sortSegments ?segs) \<noteq> [0..<length ?segs]"
    by (simp add: srt upt_rec)
  with fact have "\<not> (\<forall>i<length ?segs. show_nat (i + 1) = show_nat (pageIndex (sortSegments ?segs ! i) + 1))"
    by blast
  then obtain i where i: "i < length ?segs"
    "show_nat (i + 1) \<noteq> show_nat (pageIndex (sortSegments ?segs ! i) + 1)" by blast
  have "show_nat (0 + 1) = show_nat (pageIndex (sortSegments ?segs ! 0) + 1)" by (simp add: srt)
  with i have "i \<noteq> 0" by metis
  with i(1) have "i = 1" by simp
  with i(2) have "show_nat (1 + 1) \<noteq> show_nat (pageIndex (sortSegments ?segs ! 1) + 1)" by simp
  ultimately show ?thesis by simp
qed

subsection \<open>The job table under \<^verbatim>\<open>processFile\<close>\<close>

lemma id_setField: "id_j (setField f job) = id_j job"
  by (cases f) simp_all

lemma id_spread: "id_j (spread job p) = id_j job"
  unfolding spread_def by (induction p arbitrary: job) (simp_all add: id_setField)

lemma id_applyToJob: "id_j (applyToJob a job) = id_j job"
  by (cases a) (simp_all add: id_spread)

lemma id_fold_applyToJob: "id_j (fold applyToJob acts e) = id_j e"
  by (induction acts arbitrary: e) (simp_all add: id_applyToJob)

lemma find_applyAction:
  "findJob i (applyAction a js) = map_option (applyToJob a) (findJob i js)"
  unfolding applyAction_def findJob_def by (induction js) (simp_all add: id_applyToJob)

lemma find_fold_applyAction:
  "findJob i (fold applyAction acts js)
     = map_option (fold applyToJob acts) (findJob i js)"
proof (induction acts arbitrary: js)
  case Nil
  show ?case by (simp add: option.map_ident)
next
  case (Cons a acts)
  show ?case by (simp add: Cons.IH find_applyAction option.map_comp comp_def)
qed

lemma fold_applyAction_map: "fold applyAction acts js = map (fold applyToJob acts) js"
  by (induction acts arbitrary: js) (simp_all add: applyAction_def)

lemma fold_callbacks:
  "id_j job = jobId \<Longrightarrow>
   \<exists>q. fold applyToJob (map (\<lambda>p. UpdateJob jobId [Progress (f p)]) ps) job = job\<lparr>progress := q\<rparr>"
proof (induction ps arbitrary: job)
  case Nil
  have "job = job\<lparr>progress := progress job\<rparr>" by simp
  then show ?case by (metis fold_simps(1) list.simps(8))
next
  case (Cons p ps)
  have "id_j (job\<lparr>progress := f p\<rparr>) = jobId" using Cons.prems by simp
  from Cons.IH [OF this] obtain q where
    "fold applyToJob (map (\<lambda>p. UpdateJob jobId [Progress (f p)]) ps) (job\<lparr>progress := f p\<rparr>)
       = job\<lparr>progress := f p\<rparr>\<lparr>progress := q\<rparr>" by blast
  then show ?case using Cons.prems by (auto simp: spread_def)
qed

lemma pageLoop_segments:
  "id_j job = jobId \<Longrightarrow> pageLoop w jobId langs n i cs ws = (acts, res) \<Longrightarrow>
   \<exists>k\<le>length cs.
      map pageIndex (segments (fold applyToJob acts job)) = map pageIndex (segments job) @ [i..<i + k]
      \<and> (\<forall>ws'. res = Inr ws' \<longrightarrow> k = length cs)
      \<and> status (fold applyToJob acts job) = status job
      \<and> error (fold applyToJob acts job) = error job"
proof (induction cs arbitrary: job i ws acts res)
  case Nil
  then show ?case by simp
next
  case (Cons c cs)
  let ?r = "recognizeImage w i c langs"
  let ?cb = "map (\<lambda>p. UpdateJob jobId [Progress (pageProgress i p n)]) (reported ?r)"
  from fold_callbacks [OF Cons.prems(1), of "\<lambda>p. pageProgress i p n" "reported ?r"]
  obtain q where q: "fold applyToJob ?cb job = job\<lparr>progress := q\<rparr>" by blast
  show ?case
  proof (cases "outcome ?r")
    case (Inl e)
    with Cons.prems(2) have "acts = ?cb" "res = Inl e" by (simp_all add: Let_def)
    with q show ?thesis by (intro exI [of _ 0]) simp
  next
    case (Inr tc)
    obtain t cf where tc: "tc = (t, cf)" by (cases tc)
    let ?ws = "if duration ?r > 15000 then ws @ [durationWarning i (duration ?r)] else ws"
    obtain acts' res' where rest: "pageLoop w jobId langs n (i + 1) cs ?ws = (acts', res')"
      by (cases "pageLoop w jobId langs n (i + 1) cs ?ws")
    let ?seg = "\<lparr>pageIndex = i, text_s = t, confidence = cf\<rparr>"
    let ?upd = "UpdateJob jobId [Progress (pageProgress i 1 n), Warnings ?ws]"
    from Cons.prems(2) Inr tc rest
    have acts: "acts = ?cb @ [AppendSegment jobId ?seg, ?upd] @ acts'" and res: "res = res'"
      by (simp_all add: Let_def)
    let ?job2 = "applyToJob ?upd (applyToJob (AppendSegment jobId ?seg) (job\<lparr>progress := q\<rparr>))"
    have id2: "id_j ?job2 = jobId" using Cons.prems(1) by (simp add: id_spread)
    have f2: "segments ?job2 = segments job @ [?seg]" "status ?job2 = status job" "error ?job2 = error job"
      using Cons.prems(1) by (simp_all add: spread_def)
    from Cons.IH [OF id2 rest] obtain k where k: "k \<le> length cs"
      "map pageIndex (segments (fold applyToJob acts' ?job2)) = map pageIndex (segments ?job2) @ [i + 1..<i + 1 + k]"
      "\<forall>ws'. res' = Inr ws' \<longrightarrow> k = length cs"
      "status (fold applyToJob acts' ?job2) = status ?job2"
      "error (fold applyToJob acts' ?job2) = error ?job2" by blast
    have final: "fold applyToJob acts job = fold applyToJob acts' ?job2"
      by (simp add: acts q)
    have "[i..<i + Suc k] = i # [i + 1..<i + 1 + k]" by (simp add: upt_conv_Cons)
    with k f2 final res show ?thesis
      by (intro exI [of _ "Suc k"]) simp
  qed
qed

lemma find_id: "findJob i js = Some job \<Longrightarrow> id_j job = i"
  unfolding findJob_def by (induction js) (auto split: if_splits)

lemma processFile_found:
  "findJob jobId (jobs s) = Some job \<Longrightarrow> fileMap s jobId = Some file \<Longrightarrow>
   findJob jobId (jobs (processFile w avail s jobId))
     = Some (fold applyToJob (processFileActions w avail job file jobId) job)"
  by (simp add: processFile_def find_fold_applyAction)

lemma processFile_ran:
  assumes "findJob jobId (jobs s) = Some job" "fileMap s jobId = Some file"
  shows "jobs (processFile w avail s jobId)
           = map (fold applyToJob (processFileActions w avail job file jobId)) (jobs s)"
    and "fileMap (processFile w avail s jobId) jobId = None"
  using assms by (simp_all add: processFile_def fold_applyAction_map)

lemma processFileActions_cases:
  obtains
    (cacheFail) e where
      "promiseAll (map (ensureLanguageCached w) (languageEntries avail job)) = Some e"
      "processFileActions w avail job file jobId =
         [UpdateJob jobId [Status Processing, Progress 0, ErrorF None],
          UpdateJob jobId [Status Error, ErrorF (Some (errorMessage e))]]"
  | (resolveFail) e where
      "promiseAll (map (ensureLanguageCached w) (languageEntries avail job)) = None"
      "resolveFile w file = Inl e"
      "processFileActions w avail job file jobId =
         [UpdateJob jobId [Status Processing, Progress 0, ErrorF None],
          UpdateJob jobId [Status Error, ErrorF (Some (errorMessage e))]]"
  | (pageFail) canvases ws0 extracted acts e where
      "promiseAll (map (ensureLanguageCached w) (languageEntries avail job)) = None"
      "resolveFile w file = Inr (canvases, ws0, extracted)"
      "pageLoop w jobId (languages job) (length canvases) 0 canvases
         (if length canvases = 0 \<and> extracted = ''''
          then ws0 @ [''No visual content found for OCR.''] else ws0) = (acts, Inl e)"
      "processFileActions w avail job file jobId =
         UpdateJob jobId [Status Processing, Progress 0, ErrorF None] # acts
           @ [UpdateJob jobId [Status Error, ErrorF (Some (errorMessage e))]]"
  | (ok) canvases ws0 extracted acts ws where
      "promiseAll (map (ensureLanguageCached w) (languageEntries avail job)) = None"
      "resolveFile w file = Inr (canvases, ws0, extracted)"
      "pageLoop w jobId (languages job) (length canvases) 0 canvases
         (if length canvases = 0 \<and> extracted = ''''
          then ws0 @ [''No visual content found for OCR.''] else ws0) = (acts, Inr ws)"
      "processFileActions w avail job file jobId =
         UpdateJob jobId [Status Processing, Progress 0, ErrorF None] # acts
           @ [UpdateJob jobId [Status Completed, CompletedAt (now w), ExtractedText extracted,
                               Warnings ws, Progress 1]]"
proof (cases "promiseAll (map (ensureLanguageCached w) (languageEntries avail job))")
  case (Some e)
  then show ?thesis
    by (intro cacheFail [of e]) (simp_all add: processFileActions_def tryBlock_def)
next
  case None
  show ?thesis
  proof (cases "resolveFile w file")
    case (Inl e)
    with None show ?thesis
      by (intro resolveFail [of e]) (simp_all add: processFileActions_def tryBlock_def)
  next
    case (Inr r)
    obtain canvases ws0 extracted where r: "r = (canvases, ws0, extracted)" by (cases r)
    let ?ws1 = "if length canvases = 0 \<and> extracted = ''''
                then ws0 @ [''No visual content found for OCR.''] else ws0"
    obtain acts res where loop:
      "pageLoop w jobId (languages job) (length canvases) 0 canvases ?ws1 = (acts, res)"
      by (cases "pageLoop w jobId (languages job) (length canvases) 0 canvases ?ws1")
    show ?thesis
    proof (cases res)
      case (Inl e)
      with None Inr r loop show ?thesis
        by (intro pageFail [of canvases ws0 extracted acts e])
           (simp_all add: processFileActions_def tryBlock_def)
    next
      case (Inr ws)
      with None \<open>resolveFile w file = Inr r\<close> r loop show ?thesis
        by (intro ok [of canvases ws0 extracted acts ws])
           (simp_all add: processFileActions_def tryBlock_def)
    qed
  qed
qed

lemma last_snapshots: "last (snapshots js acts) = fold applyAction acts js"
proof (induction acts arbitrary: js)
  case Nil
  show ?case by simp
next
  case (Cons a acts)
  have "snapshots (applyAction a js) acts \<noteq> []" by (cases acts) simp_all
  with Cons.IH show ?case by simp
qed

subsection \<open>Concrete runs\<close>

lemma accepts_demoFile: "accepts demoFile"
  by (simp add: accepts_def demoFile_def includes_l_def SUPPORTED_FILE_TYPES_def)

lemma demoState_eq: "demoState = \<lparr>jobs = [demoJob], fileMap = (\<lambda>jobId. None)(''job-1'' \<mapsto> demoFile)\<rparr>"
  using accepts_demoFile
  by (simp add: demoState_def handleFiles_def Let_def admit_def noFiles_def demoJob_def)

lemma resolve_demoFile: "resolveFile (demoWorld pages rec) demoFile = Inr (pages, [], '''')"
  by (simp add: resolveFile_def demoWorld_def demoFile_def isImage_def isPdf_def startsWith_def)

lemma cached_demo: "promiseAll (map (ensureLanguageCached (demoWorld pages rec)) ls) = None"
  by (induction ls) (simp_all add: demoWorld_def)

lemma demoWorld_sel:
  "recognizeImage (demoWorld pages rec) i c ls = rec i" "now (demoWorld pages rec) = 1000"
  by (simp_all add: demoWorld_def)

lemma demo_found: "findJob ''job-1'' (jobs demoState) = Some demoJob"
  by (simp add: demoState_eq findJob_def demoJob_def pendingJob_def)

lemma demo_hasFile: "fileMap demoState ''job-1'' = Some demoFile"
  by (simp add: demoState_eq)

lemma demo_fresh: "segments demoJob = []" "warnings demoJob = []" "languages demoJob = [''eng'']"
  "id_j demoJob = ''job-1''" "progress demoJob = 0" "status demoJob = Pending"
  by (simp_all add: demoJob_def pendingJob_def)

lemma run_hello:
  "fold applyToJob (processFileActions (demoWorld [7, 8] helloWorld) [] demoJob demoFile ''job-1'') demoJob
   = demoJob\<lparr>status := Completed, progress := 1, completedAt := Some 1000,
       segments := [\<lparr>pageIndex = 0, text_s = ''Hello'', confidence = 481/5\<rparr>,
                    \<lparr>pageIndex = 1, text_s = ''World'', confidence = 91\<rparr>]\<rparr>"
  by (simp add: processFileActions_def tryBlock_def cached_demo resolve_demoFile Let_def
      spread_def helloWorld_def okPage_def demoJob_def pendingJob_def demoWorld_sel pageProgress_def)

lemma run_secondPageFails:
  "fold applyToJob (processFileActions (demoWorld [7, 8, 9] secondPageFails) [] demoJob demoFile ''job-1'') demoJob
   = demoJob\<lparr>status := Error, progress := 1 / 3, error := Some ''recognition failed'',
       segments := [\<lparr>pageIndex = 0, text_s = ''text'', confidence = 90\<rparr>]\<rparr>"
  by (simp add: processFileActions_def tryBlock_def cached_demo resolve_demoFile Let_def
      spread_def secondPageFails_def okPage_def failedPage_def demoJob_def pendingJob_def demoWorld_sel
      pageProgress_def errorMessage_def)

lemma run_empty:
  "fold applyToJob (processFileActions (demoWorld [] rec) [] demoJob demoFile ''job-1'') demoJob
   = demoJob\<lparr>status := Completed, progress := 1, completedAt := Some 1000,
       warnings := [''No visual content found for OCR.'']\<rparr>"
  by (simp add: processFileActions_def tryBlock_def cached_demo resolve_demoFile
      spread_def demoJob_def pendingJob_def demoWorld_sel)

lemma actions_hello:
  "processFileActions (demoWorld [7, 8] helloWorld) [] demoJob demoFile ''job-1''
   = [UpdateJob ''job-1'' [Status Processing, Progress 0, ErrorF None],
      UpdateJob ''job-1'' [Progress (1 / 4)],
      AppendSegment ''job-1'' \<lparr>pageIndex = 0, text_s = ''Hello'', confidence = 481 / 5\<rparr>,
      UpdateJob ''job-1'' [Progress (1 / 2), Warnings []],
      UpdateJob ''job-1'' [Progress (3 / 4)],
      AppendSegment ''job-1'' \<lparr>pageIndex = 1, text_s = ''World'', confidence = 91\<rparr>,
      UpdateJob ''job-1'' [Progress 1, Warnings []],
      UpdateJob ''job-1'' [Status Completed, CompletedAt 1000, ExtractedText '''', Warnings [], Progress 1]]"
  by (simp add: processFileActions_def tryBlock_def cached_demo resolve_demoFile Let_def
      helloWorld_def okPage_def demo_fresh demoWorld_sel pageProgress_def)

lemma actions_backward:
  "processFileActions (demoWorld [7] backwardCallbacks) [] demoJob demoFile ''job-1''
   = [UpdateJob ''job-1'' [Status Processing, Progress 0, ErrorF None],
      UpdateJob ''job-1'' [Progress (9 / 10)],
      UpdateJob ''job-1'' [Progress (1 / 2)],
      AppendSegment ''job-1'' \<lparr>pageIndex = 0, text_s = ''text'', confidence = 90\<rparr>,
      UpdateJob ''job-1'' [Progress 1, Warnings []],
      UpdateJob ''job-1'' [Status Completed, CompletedAt 1000, ExtractedText '''', Warnings [], Progress 1]]"
  by (simp add: processFileActions_def tryBlock_def cached_demo resolve_demoFile Let_def
      backwardCallbacks_def okPage_def demo_fresh demoWorld_sel pageProgress_def)

subsection \<open>The segments of a completed job\<close>

lemma sortSegments_any_arrival:
  assumes idx: "map pageIndex segs = [0..<n]" and perm: "mset arrival = mset segs"
  shows "sortSegments arrival = segs"
proof -
  have "mset (map pageIndex (sortSegments arrival)) = mset [0..<n]"
    using idx perm by (metis mset_map mset_sortSegments)
  then have keys: "map pageIndex (sortSegments arrival) = map pageIndex segs"
    using perm_upt_sorted [OF _ sorted_sortSegments] idx by simp
  have "distinct (map pageIndex segs)" using idx by simp
  then have "inj_on pageIndex (set segs)" by (simp add: distinct_map)
  moreover have "set (sortSegments arrival) = set segs"
    using perm mset_sortSegments by (metis set_mset_mset)
  ultimately have "inj_on pageIndex (set (sortSegments arrival) \<union> set segs)" by simp
  with keys show ?thesis by (simp add: inj_on_map_eq_map)
qed

text \<open>
  C9. A job that \<^verbatim>\<open>processFile\<close> took from an empty segment list to \<open>Completed\<close>, for a
  document of \<open>length canvases\<close> pages, has the page indices \<open>0, \<dots>, length canvases - 1\<close>
  in its segments, each once (so they are duplicate-free and within the page range). In
  whatever order the same segments are stored, \<^verbatim>\<open>combineSegments\<close> writes their blocks in
  ascending page index, and the text that \<^verbatim>\<open>aggregatedText\<close> displays and exports is the
  same: the blocks of pages \<open>0, 1, \<dots>\<close> in this order, each under its header.
\<close>

theorem completed_job_segments:
  assumes found: "findJob jobId (jobs s) = Some job"
    and hasFile: "fileMap s jobId = Some file"
    and fresh: "segments job = []"
    and pages: "resolveFile w file = Inr (canvases, ws0, extracted)"
    and after: "findJob jobId (jobs (processFile w avail s jobId)) = Some job'"
    and completed: "status job' = Completed"
  shows "map pageIndex (segments job') = [0..<length canvases]
         \<and> distinct (map pageIndex (segments job'))
         \<and> set (map pageIndex (segments job')) \<subseteq> {0..<length canvases}
         \<and> (\<forall>arrival. mset arrival = mset (segments job') \<longrightarrow>
                sortSegments arrival = segments job'
                \<and> combineSegments arrival
                    = concat (map (\<lambda>(i, segment).
                      (if i = 0 then [] else [CHR 0x0A])
                        @ ''--- Page '' @ show_nat (i + 1) @ '' (Confidence: ''
                        @ toFixed 2 (confidence segment) @ ''%) ---'' @ [CHR 0x0A]
                        @ trim (text_s segment) @ [CHR 0x0A]) (enumerate 0 (segments job')))
                \<and> aggregatedText (job'\<lparr>segments := arrival\<rparr>)
                    = (if extractedText job' \<noteq> '''' then trim (extractedText job') @ [CHR 0x0A, CHR 0x0A]
                       else '''')
                      @ concat (map (\<lambda>(i, segment).
                      (if i = 0 then [] else [CHR 0x0A])
                        @ ''--- Page '' @ show_nat (i + 1) @ '' (Confidence: ''
                        @ toFixed 2 (confidence segment) @ ''%) ---'' @ [CHR 0x0A]
                        @ trim (text_s segment) @ [CHR 0x0A]) (enumerate 0 (segments job'))))"
proof -
  let ?start = "UpdateJob jobId [Status Processing, Progress 0, ErrorF None]"
  have idj: "id_j job = jobId" using found by (rule find_id)
  have job': "job' = fold applyToJob (processFileActions w avail job file jobId) job"
    using processFile_found [OF found hasFile, of w avail] after by simp
  let ?job0 = "applyToJob ?start job"
  have id0: "id_j ?job0 = jobId" using idj by (simp add: id_spread)
  have seg0: "segments ?job0 = []" using idj fresh by (simp add: spread_def)
  have idx: "map pageIndex (segments job') = [0..<length canvases]"
  proof (cases rule: processFileActions_cases [of w avail job "file" jobId])
    case (cacheFail e)
    with job' idj have "status job' = Error" by (simp add: spread_def)
    with completed show ?thesis by simp
  next
    case (resolveFail e)
    with job' idj have "status job' = Error" by (simp add: spread_def)
    with completed show ?thesis by simp
  next
    case (pageFail cs w0 ex acts e)
    have "id_j (fold applyToJob acts ?job0) = jobId"
      using id0 by (induction acts arbitrary: job rule: rev_induct) (simp_all add: id_applyToJob)
    with job' pageFail(4) have "status job' = Error" by (simp add: spread_def)
    with completed show ?thesis by simp
  next
    case (ok cs w0 ex acts ws)
    from ok(2) pages have cs: "cs = canvases" by simp
    from pageLoop_segments [OF id0 ok(3)] obtain k where
      k: "map pageIndex (segments (fold applyToJob acts ?job0))
            = map pageIndex (segments ?job0) @ [0..<0 + k]"
         "k = length cs" by blast
    have "segments job' = segments (fold applyToJob acts ?job0)"
      using job' ok(4) by (simp add: spread_def)
    with k seg0 cs show ?thesis by simp
  qed
  have shown: "sortSegments arrival = segments job'
                \<and> combineSegments arrival
                    = concat (map (\<lambda>(i, segment).
                      (if i = 0 then [] else [CHR 0x0A])
                        @ ''--- Page '' @ show_nat (i + 1) @ '' (Confidence: ''
                        @ toFixed 2 (confidence segment) @ ''%) ---'' @ [CHR 0x0A]
                        @ trim (text_s segment) @ [CHR 0x0A]) (enumerate 0 (segments job')))
                \<and> aggregatedText (job'\<lparr>segments := arrival\<rparr>)
                    = (if extractedText job' \<noteq> '''' then trim (extractedText job') @ [CHR 0x0A, CHR 0x0A]
                       else '''')
                      @ concat (map (\<lambda>(i, segment).
                      (if i = 0 then [] else [CHR 0x0A])
                        @ ''--- Page '' @ show_nat (i + 1) @ '' (Confidence: ''
                        @ toFixed 2 (confidence segment) @ ''%) ---'' @ [CHR 0x0A]
                        @ trim (text_s segment) @ [CHR 0x0A]) (enumerate 0 (segments job')))"
    if perm: "mset arrival = mset (segments job')" for arrival
  proof -
    have srt: "sortSegments arrival = segments job'"
      using idx perm by (rule sortSegments_any_arrival)
    have rendered: "combineSegments arrival
                    = concat (map (\<lambda>(i, segment).
                      (if i = 0 then [] else [CHR 0x0A])
                        @ ''--- Page '' @ show_nat (i + 1) @ '' (Confidence: ''
                        @ toFixed 2 (confidence segment) @ ''%) ---'' @ [CHR 0x0A]
                        @ trim (text_s segment) @ [CHR 0x0A]) (enumerate 0 (segments job')))"
      by (simp only: combineSegments_text [of arrival] srt)
    have "aggregatedText (job'\<lparr>segments := arrival\<rparr>)
            = (if extractedText job' \<noteq> '''' then trim (extractedText job') @ [CHR 0x0A, CHR 0x0A]
               else '''') @ combineSegments arrival"
      by (simp add: aggregatedText_def)
    with srt rendered show ?thesis by (simp only:)
  qed
  have "distinct (map pageIndex (segments job'))"
    and "set (map pageIndex (segments job')) \<subseteq> {0..<length canvases}"
    using idx by simp_all
  with idx shown show ?thesis by blast
qed

text \<open>The two-page document of the end-to-end scenario: were the segment of page 1 stored
  before that of page 0, the exported text would still show \<^verbatim>\<open>Hello\<close> under
  \<^verbatim>\<open>--- Page 1\<close> before \<^verbatim>\<open>World\<close> under \<^verbatim>\<open>--- Page 2\<close>.\<close>

theorem completed_job_segments_witness:
  "findJob ''job-1'' (jobs demoState) = Some demoJob
   \<and> fileMap demoState ''job-1'' = Some demoFile
   \<and> segments demoJob = []
   \<and> resolveFile (demoWorld [7, 8] helloWorld) demoFile = Inr ([7, 8], [], '''')
   \<and> findJob ''job-1'' (jobs (processFile (demoWorld [7, 8] helloWorld) [] demoState ''job-1''))
        = Some (demoJob\<lparr>status := Completed, progress := 1, completedAt := Some 1000,
                  segments := [\<lparr>pageIndex = 0, text_s = ''Hello'', confidence = 481 / 5\<rparr>,
                               \<lparr>pageIndex = 1, text_s = ''World'', confidence = 91\<rparr>]\<rparr>)
   \<and> mset [\<lparr>pageIndex = 1, text_s = ''World'', confidence = 91\<rparr>,
            \<lparr>pageIndex = 0, text_s = ''Hello'', confidence = 481 / 5\<rparr>]
       = mset [\<lparr>pageIndex = 0, text_s = ''Hello'', confidence = 481 / 5\<rparr>,
               \<lparr>pageIndex = 1, text_s = ''World'', confidence = 91\<rparr>]
   \<and> aggregatedText
         (demoJob\<lparr>status := Completed, progress := 1, completedAt := Some 1000,
                  segments := [\<lparr>pageIndex = 1, text_s = ''World'', confidence = 91\<rparr>,
                               \<lparr>pageIndex = 0, text_s = ''Hello'', confidence = 481 / 5\<rparr>]\<rparr>)
       = ''--- Page 1 (Confidence: 96.20%) ---'' @ [CHR 0x0A] @ ''Hello'' @ [CHR 0x0A] @ [CHR 0x0A]
         @ ''--- Page 2 (Confidence: 91.00%) ---'' @ [CHR 0x0A] @ ''World'' @ [CHR 0x0A]"
proof -
  let ?w = "demoWorld [7, 8] helloWorld"
  let ?s0 = "\<lparr>pageIndex = 0, text_s = ''Hello'', confidence = 481 / 5\<rparr>"
  let ?s1 = "\<lparr>pageIndex = 1, text_s = ''World'', confidence = 91\<rparr>"
  let ?done = "demoJob\<lparr>status := Completed, progress := 1, completedAt := Some 1000,
                         segments := [?s0, ?s1]\<rparr>"
  have pages: "resolveFile ?w demoFile = Inr ([7, 8], [], '''')" by (rule resolve_demoFile)
  have run: "findJob ''job-1'' (jobs (processFile ?w [] demoState ''job-1'')) = Some ?done"
    using processFile_found [OF demo_found demo_hasFile, of ?w "[]"] by (simp add: run_hello)
  have completed: "status ?done = Completed" by simp
  have perm: "mset [?s1, ?s0] = mset (segments ?done)" by simp
  have t: "trim ''Hello'' = ''Hello''" "trim ''World'' = ''World''"
    by (simp_all add: trim_def isSpace_def)
  have ex: "extractedText demoJob = ''''" by (simp add: demoJob_def pendingJob_def)
  from completed_job_segments [OF demo_found demo_hasFile demo_fresh(1) pages run completed] perm
  have "aggregatedText (?done\<lparr>segments := [?s1, ?s0]\<rparr>)
          = (if extractedText ?done \<noteq> '''' then trim (extractedText ?done) @ [CHR 0x0A, CHR 0x0A]
             else '''')
            @ concat (map (\<lambda>(i, segment).
                      (if i = 0 then [] else [CHR 0x0A])
                        @ ''--- Page '' @ show_nat (i + 1) @ '' (Confidence: ''
                        @ toFixed 2 (confidence segment) @ ''%) ---'' @ [CHR 0x0A]
                        @ trim (text_s segment) @ [CHR 0x0A])
                   (enumerate 0 (segments ?done)))"
    by blast
  then have "aggregatedText (?done\<lparr>segments := [?s1, ?s0]\<rparr>)
       = ''--- Page 1 (Confidence: 96.20%) ---'' @ [CHR 0x0A] @ ''Hello'' @ [CHR 0x0A] @ [CHR 0x0A]
         @ ''--- Page 2 (Confidence: 91.00%) ---'' @ [CHR 0x0A] @ ''World'' @ [CHR 0x0A]"
    by (simp add: ex t show_nat_small toFixed_values)
  moreover have "mset [?s1, ?s0] = mset [?s0, ?s1]" by simp
  ultimately show ?thesis using demo_found demo_hasFile demo_fresh(1) pages run by simp
qed

subsection \<open>A page that cannot be recognized\<close>

lemma pageLoop_failure:
  "id_j job = jobId \<Longrightarrow>
   \<forall>(j, c) \<in> set (enumerate i pre). recognized w langs j c \<noteq> None \<Longrightarrow>
   outcome (recognizeImage w (i + length pre) c langs) = Inl e \<Longrightarrow>
   pageLoop w jobId langs n i (pre @ c # post) ws = (acts, res) \<Longrightarrow>
   res = Inl e
   \<and> map Some (segments (fold applyToJob acts job))
       = map Some (segments job) @ map (\<lambda>(j, c). recognized w langs j c) (enumerate i pre)
   \<and> status (fold applyToJob acts job) = status job
   \<and> error (fold applyToJob acts job) = error job
   \<and> id_j (fold applyToJob acts job) = jobId
   \<and> set (warnings (fold applyToJob acts job))
       \<subseteq> set (warnings job) \<union> set ws
          \<union> (\<lambda>(j, c). durationWarning j (duration (recognizeImage w j c langs))) ` set (enumerate i pre)"
proof (induction pre arbitrary: job i ws acts res)
  case Nil
  let ?r = "recognizeImage w i c langs"
  let ?cb = "map (\<lambda>p. UpdateJob jobId [Progress (pageProgress i p n)]) (reported ?r)"
  from fold_callbacks [OF Nil.prems(1), of "\<lambda>p. pageProgress i p n" "reported ?r"]
  obtain q where q: "fold applyToJob ?cb job = job\<lparr>progress := q\<rparr>" by blast
  from Nil.prems(3,4) have "acts = ?cb" "res = Inl e" by (simp_all add: Let_def)
  with q Nil.prems(1) show ?case by simp
next
  case (Cons x pre)
  let ?r = "recognizeImage w i x langs"
  let ?cb = "map (\<lambda>p. UpdateJob jobId [Progress (pageProgress i p n)]) (reported ?r)"
  from fold_callbacks [OF Cons.prems(1), of "\<lambda>p. pageProgress i p n" "reported ?r"]
  obtain q where q: "fold applyToJob ?cb job = job\<lparr>progress := q\<rparr>" by blast
  from Cons.prems(2) have "recognized w langs i x \<noteq> None" by simp
  then obtain t cf where out: "outcome ?r = Inr (t, cf)"
    and rec: "recognized w langs i x = Some \<lparr>pageIndex = i, text_s = t, confidence = cf\<rparr>"
    by (auto simp: recognized_def split: sum.splits)
  let ?ws = "if duration ?r > 15000 then ws @ [durationWarning i (duration ?r)] else ws"
  obtain acts' res' where rest: "pageLoop w jobId langs n (Suc i) (pre @ c # post) ?ws = (acts', res')"
    by (cases "pageLoop w jobId langs n (Suc i) (pre @ c # post) ?ws")
  let ?seg = "\<lparr>pageIndex = i, text_s = t, confidence = cf\<rparr>"
  let ?upd = "UpdateJob jobId [Progress (pageProgress i 1 n), Warnings ?ws]"
  from Cons.prems(4) out rest
  have acts: "acts = ?cb @ [AppendSegment jobId ?seg, ?upd] @ acts'" and res: "res = res'"
    by (simp_all add: Let_def)
  let ?job2 = "applyToJob ?upd (applyToJob (AppendSegment jobId ?seg) (job\<lparr>progress := q\<rparr>))"
  have id2: "id_j ?job2 = jobId" using Cons.prems(1) by (simp add: id_spread)
  have f2: "segments ?job2 = segments job @ [?seg]" "status ?job2 = status job"
    "error ?job2 = error job" "warnings ?job2 = ?ws"
    using Cons.prems(1) by (simp_all add: spread_def)
  have oks: "\<forall>(j, c) \<in> set (enumerate (Suc i) pre). recognized w langs j c \<noteq> None"
    using Cons.prems(2) by simp
  have fails: "outcome (recognizeImage w (Suc i + length pre) c langs) = Inl e"
    using Cons.prems(3) by simp
  note ih = Cons.IH [OF id2 oks fails rest]
  have final: "fold applyToJob acts job = fold applyToJob acts' ?job2"
    by (simp add: acts q)
  have "set ?ws \<subseteq> set ws \<union> {durationWarning i (duration ?r)}" by auto
  with ih f2 final res rec show ?case by (auto simp del: applyToJob.simps)
qed

lemma resolveFile_pages_no_warnings:
  "resolveFile w file = Inr (canvases, ws0, extracted) \<Longrightarrow> canvases \<noteq> [] \<Longrightarrow> ws0 = []"
  by (auto simp: resolveFile_def split: if_splits sum.splits)

lemma enumerate_take_nth:
  "k \<le> length xs \<Longrightarrow> (\<forall>(j, c) \<in> set (enumerate 0 (take k xs)). P j c) \<longleftrightarrow> (\<forall>j<k. P j (xs ! j))"
  by (auto simp: in_set_enumerate_eq)

text \<open>
  C1, as the code has it. \<^verbatim>\<open>processFile\<close> awaits \<^verbatim>\<open>recognizeImage\<close> inside the one
  \<^verbatim>\<open>try\<close> block of the job: when the recognition of page \<open>k\<close> throws after the pages
  before it succeeded, the job ends with status \<open>Error\<close> and the thrown message, its
  segments are those it had plus the segments of pages \<open>0, \<dots>, k - 1\<close> unchanged, no
  segment is appended for page \<open>k\<close> or any later page, and every warning of the job is
  one it had before or the duration notice of an earlier page: none is recorded for the
  failure.
\<close>

theorem page_failure_ends_job_in_error:
  assumes found: "findJob jobId (jobs s) = Some job"
    and hasFile: "fileMap s jobId = Some file"
    and cached: "promiseAll (map (ensureLanguageCached w) (languageEntries avail job)) = None"
    and pages: "resolveFile w file = Inr (canvases, ws0, extracted)"
    and k: "k < length canvases"
    and oks: "\<forall>j<k. recognized w (languages job) j (canvases ! j) \<noteq> None"
    and fails: "outcome (recognizeImage w k (canvases ! k) (languages job)) = Inl e"
  shows "\<exists>job'. findJob jobId (jobs (processFile w avail s jobId)) = Some job'
           \<and> status job' = Error
           \<and> error job' = Some (errorMessage e)
           \<and> map Some (segments job')
               = map Some (segments job)
                 @ map (\<lambda>(j, c). recognized w (languages job) j c) (enumerate 0 (take k canvases))
           \<and> length (segments job') = length (segments job) + k
           \<and> set (warnings job')
               \<subseteq> set (warnings job)
                  \<union> (\<lambda>(j, c). durationWarning j (duration (recognizeImage w j c (languages job))))
                      ` set (enumerate 0 (take k canvases))"
proof -
  let ?start = "UpdateJob jobId [Status Processing, Progress 0, ErrorF None]"
  let ?job0 = "applyToJob ?start job"
  let ?pre = "take k canvases"
  have idj: "id_j job = jobId" using found by (rule find_id)
  have id0: "id_j ?job0 = jobId" using idj by (simp add: id_spread)
  have job0: "segments ?job0 = segments job" "warnings ?job0 = warnings job"
    using idj by (simp_all add: spread_def)
  have split: "canvases = ?pre @ canvases ! k # drop (Suc k) canvases"
    using k by (simp add: id_take_nth_drop)
  have nonempty: "canvases \<noteq> []" using k by auto
  then have ws0: "ws0 = []" using pages by (rule resolveFile_pages_no_warnings [rotated])
  obtain acts res where loop:
    "pageLoop w jobId (languages job) (length canvases) 0 canvases [] = (acts, res)"
    by (cases "pageLoop w jobId (languages job) (length canvases) 0 canvases []")
  then have loop': "pageLoop w jobId (languages job) (length canvases) 0
                     (?pre @ canvases ! k # drop (Suc k) canvases) [] = (acts, res)"
    using split by simp
  have oks': "\<forall>(j, c) \<in> set (enumerate 0 ?pre). recognized w (languages job) j c \<noteq> None"
    using oks k enumerate_take_nth [of k canvases "\<lambda>j c. recognized w (languages job) j c \<noteq> None"]
    by simp
  have fails': "outcome (recognizeImage w (0 + length ?pre) (canvases ! k) (languages job)) = Inl e"
    using fails k by simp
  note fact = pageLoop_failure [OF id0 oks' fails' loop']
  then have res: "res = Inl e" by blast
  let ?mid = "fold applyToJob acts ?job0"
  have actions: "processFileActions w avail job file jobId
                   = ?start # acts @ [UpdateJob jobId [Status Error, ErrorF (Some (errorMessage e))]]"
    using cached pages nonempty ws0 loop res by (simp add: processFileActions_def tryBlock_def)
  let ?job' = "fold applyToJob (processFileActions w avail job file jobId) job"
  have final: "?job' = (?mid)\<lparr>status := Error, error := Some (errorMessage e)\<rparr>"
    using fact by (simp add: actions spread_def del: applyToJob.simps(1)) (simp add: spread_def)
  have segs: "map Some (segments ?job')
               = map Some (segments job)
                 @ map (\<lambda>(j, c). recognized w (languages job) j c) (enumerate 0 ?pre)"
    using fact job0 by (simp add: final)
  have "length (map Some (segments ?job')) = length (segments job) + k"
    using k by (simp only: segs) simp
  then have len: "length (segments ?job') = length (segments job) + k" by simp
  have warn: "set (warnings ?job')
               \<subseteq> set (warnings job)
                  \<union> (\<lambda>(j, c). durationWarning j (duration (recognizeImage w j c (languages job))))
                      ` set (enumerate 0 ?pre)"
    using fact job0 by (simp add: final)
  have "findJob jobId (jobs (processFile w avail s jobId)) = Some ?job'"
    using processFile_found [OF found hasFile] .
  moreover have "status ?job' = Error" "error ?job' = Some (errorMessage e)"
    by (simp_all add: final)
  ultimately show ?thesis using segs len warn by blast
qed

theorem page_failure_ends_job_in_error_witness:
  "findJob ''job-1'' (jobs demoState) = Some demoJob
   \<and> fileMap demoState ''job-1'' = Some demoFile
   \<and> promiseAll (map (ensureLanguageCached (demoWorld [7, 8, 9] secondPageFails))
                     (languageEntries [] demoJob)) = None
   \<and> resolveFile (demoWorld [7, 8, 9] secondPageFails) demoFile = Inr ([7, 8, 9], [], '''')
   \<and> (1::nat) < length [7, 8, 9 :: nat]
   \<and> recognized (demoWorld [7, 8, 9] secondPageFails) (languages demoJob) 0 ([7, 8, 9] ! 0) \<noteq> None
   \<and> outcome (recognizeImage (demoWorld [7, 8, 9] secondPageFails) 1 ([7, 8, 9] ! 1) (languages demoJob))
        = Inl (ErrorObj ''recognition failed'')
   \<and> findJob ''job-1'' (jobs (processFile (demoWorld [7, 8, 9] secondPageFails) [] demoState ''job-1''))
        = Some (demoJob\<lparr>status := Error, progress := 1 / 3, error := Some ''recognition failed'',
               segments := [\<lparr>pageIndex = 0, text_s = ''text'', confidence = 90\<rparr>]\<rparr>)
   \<and> length (segments (demoJob\<lparr>status := Error, progress := 1 / 3, error := Some ''recognition failed'',
               segments := [\<lparr>pageIndex = 0, text_s = ''text'', confidence = 90\<rparr>]\<rparr>)) = 1"
proof -
  let ?w = "demoWorld [7, 8, 9] secondPageFails"
  let ?done = "demoJob\<lparr>status := Error, progress := 1 / 3, error := Some ''recognition failed'',
                         segments := [\<lparr>pageIndex = 0, text_s = ''text'', confidence = 90\<rparr>]\<rparr>"
  have cached: "promiseAll (map (ensureLanguageCached ?w) (languageEntries [] demoJob)) = None"
    by (rule cached_demo)
  have pages: "resolveFile ?w demoFile = Inr ([7, 8, 9], [], '''')" by (rule resolve_demoFile)
  have k: "(1::nat) < length [7, 8, 9 :: nat]" by simp
  have ok0: "recognized ?w (languages demoJob) 0 ([7, 8, 9] ! 0) \<noteq> None"
    by (simp add: recognized_def demoWorld_sel secondPageFails_def okPage_def)
  then have oks: "\<forall>j<1. recognized ?w (languages demoJob) j ([7, 8, 9] ! j) \<noteq> None" by simp
  have fails: "outcome (recognizeImage ?w 1 ([7, 8, 9] ! 1) (languages demoJob))
                 = Inl (ErrorObj ''recognition failed'')"
    by (simp add: demoWorld_sel secondPageFails_def failedPage_def)
  from page_failure_ends_job_in_error [OF demo_found demo_hasFile cached pages k oks fails]
  obtain job' where job': "findJob ''job-1'' (jobs (processFile ?w [] demoState ''job-1'')) = Some job'"
    and len: "length (segments job') = length (segments demoJob) + 1" by blast
  have run: "findJob ''job-1'' (jobs (processFile ?w [] demoState ''job-1'')) = Some ?done"
    using processFile_found [OF demo_found demo_hasFile, of ?w "[]"] by (simp add: run_secondPageFails)
  with job' len have "length (segments ?done) = 1" by (simp add: demo_fresh)
  with demo_found demo_hasFile cached pages k ok0 fails run show ?thesis by blast
qed

text \<open>
  C1 as stated fails: in a three-page document whose second page cannot be recognized
  while the third could, the job ends in \<open>Error\<close>, not \<open>Completed\<close>, with the segment of
  page index 0 only and no warning.
\<close>

theorem page_failure_counterexample:
  "findJob ''job-1'' (jobs (processFile (demoWorld [7, 8, 9] secondPageFails) [] demoState ''job-1''))
     = Some (demoJob\<lparr>status := Error, progress := 1 / 3, error := Some ''recognition failed'',
               segments := [\<lparr>pageIndex = 0, text_s = ''text'', confidence = 90\<rparr>]\<rparr>)
   \<and> status (demoJob\<lparr>status := Error, progress := 1 / 3, error := Some ''recognition failed'',
               segments := [\<lparr>pageIndex = 0, text_s = ''text'', confidence = 90\<rparr>]\<rparr>) \<noteq> Completed
   \<and> warnings (demoJob\<lparr>status := Error, progress := 1 / 3, error := Some ''recognition failed'',
               segments := [\<lparr>pageIndex = 0, text_s = ''text'', confidence = 90\<rparr>]\<rparr>) = []
   \<and> outcome (recognizeImage (demoWorld [7, 8, 9] secondPageFails) 2 9 [''eng'']) = Inr (''text'', 90)"
  using processFile_found [OF demo_found demo_hasFile, of "demoWorld [7, 8, 9] secondPageFails" "[]"]
  by (simp add: run_secondPageFails demo_fresh demoWorld_sel secondPageFails_def okPage_def)

subsection \<open>A document without content\<close>

text \<open>
  C4. When the languages are cached and the document resolves to no page and no text, a
  job with no segments yet ends with status \<open>Completed\<close>, not \<open>Error\<close>, with no error
  message, with \<^verbatim>\<open>No visual content found for OCR.\<close> as the last warning, and with empty
  text to export.
\<close>

theorem empty_document_completes:
  assumes found: "findJob jobId (jobs s) = Some job"
    and hasFile: "fileMap s jobId = Some file"
    and cached: "promiseAll (map (ensureLanguageCached w) (languageEntries avail job)) = None"
    and pages: "resolveFile w file = Inr ([], ws0, '''')"
    and fresh: "segments job = []"
  shows "\<exists>job'. findJob jobId (jobs (processFile w avail s jobId)) = Some job'
           \<and> status job' = Completed
           \<and> status job' \<noteq> Error
           \<and> error job' = None
           \<and> warnings job' = ws0 @ [''No visual content found for OCR.'']
           \<and> segments job' = []
           \<and> extractedText job' = ''''
           \<and> aggregatedText job' = ''''
           \<and> progress job' = 1"
proof -
  have idj: "id_j job = jobId" using found by (rule find_id)
  let ?job' = "fold applyToJob (processFileActions w avail job file jobId) job"
  have final: "?job' = job\<lparr>status := Completed, progress := 1, completedAt := Some (now w),
                          error := None, extractedText := '''',
                          warnings := ws0 @ [''No visual content found for OCR.'']\<rparr>"
    using cached pages idj by (simp add: processFileActions_def tryBlock_def spread_def)
  have "findJob jobId (jobs (processFile w avail s jobId)) = Some ?job'"
    using processFile_found [OF found hasFile] .
  moreover have "aggregatedText ?job' = ''''"
    using fresh by (simp add: final aggregatedText_def combineSegments_def segmentBlocks_def sortSegments_def)
  ultimately show ?thesis using fresh by (simp add: final)
qed

theorem empty_document_completes_witness:
  "findJob ''job-1'' (jobs demoState) = Some demoJob
   \<and> fileMap demoState ''job-1'' = Some demoFile
   \<and> promiseAll (map (ensureLanguageCached (demoWorld [] helloWorld)) (languageEntries [] demoJob)) = None
   \<and> resolveFile (demoWorld [] helloWorld) demoFile = Inr ([], [], '''')
   \<and> segments demoJob = []
   \<and> findJob ''job-1'' (jobs (processFile (demoWorld [] helloWorld) [] demoState ''job-1''))
        = Some (demoJob\<lparr>status := Completed, progress := 1, completedAt := Some 1000,
                  warnings := [''No visual content found for OCR.'']\<rparr>)
   \<and> aggregatedText (demoJob\<lparr>status := Completed, progress := 1, completedAt := Some 1000,
                  warnings := [''No visual content found for OCR.'']\<rparr>) = ''''"
proof -
  let ?w = "demoWorld [] helloWorld"
  let ?done = "demoJob\<lparr>status := Completed, progress := 1, completedAt := Some 1000,
                  warnings := [''No visual content found for OCR.'']\<rparr>"
  have cached: "promiseAll (map (ensureLanguageCached ?w) (languageEntries [] demoJob)) = None"
    by (rule cached_demo)
  have pages: "resolveFile ?w demoFile = Inr ([], [], '''')" by (rule resolve_demoFile)
  have run: "findJob ''job-1'' (jobs (processFile ?w [] demoState ''job-1'')) = Some ?done"
    using processFile_found [OF demo_found demo_hasFile, of ?w "[]"] by (simp add: run_empty)
  from empty_document_completes [OF demo_found demo_hasFile cached pages demo_fresh(1)]
  obtain job' where "findJob ''job-1'' (jobs (processFile ?w [] demoState ''job-1'')) = Some job'"
    and "aggregatedText job' = ''''" by blast
  with run have "aggregatedText ?done = ''''" by simp
  with demo_found demo_hasFile cached pages demo_fresh(1) run show ?thesis by blast
qed

subsection \<open>Dispatch of pending jobs\<close>

lemma pendingDispatch_iff:
  "jobId \<in> set (pendingDispatch js) \<longleftrightarrow> (\<exists>job \<in> set js. id_j job = jobId \<and> status job = Pending)"
  by (auto simp: pendingDispatch_def)

text \<open>The updates of a run are all addressed to the job of the run; the first one sets
  \<open>Processing\<close>, the last one \<open>Completed\<close> or \<open>Error\<close>, and none in between sets a status.\<close>

lemma applyToJob_other: "id_j e \<noteq> target a \<Longrightarrow> applyToJob a e = e"
  by (cases a) simp_all

lemma fold_applyToJob_other: "\<forall>a \<in> set acts. target a \<noteq> id_j e \<Longrightarrow> fold applyToJob acts e = e"
  by (induction acts) (auto simp: applyToJob_other [of e] simp del: applyToJob.simps)

lemma pageLoop_quiet:
  "pageLoop w jobId langs n i cs ws = (acts, res) \<Longrightarrow>
   \<forall>a \<in> set acts. target a = jobId \<and> (\<forall>e. status (applyToJob a e) = status e)"
proof (induction cs arbitrary: i ws acts res)
  case Nil
  then show ?case by simp
next
  case (Cons c cs)
  let ?r = "recognizeImage w i c langs"
  let ?cb = "map (\<lambda>p. UpdateJob jobId [Progress (pageProgress i p n)]) (reported ?r)"
  have cb: "\<forall>a \<in> set ?cb. target a = jobId \<and> (\<forall>e. status (applyToJob a e) = status e)"
    by (auto simp: spread_def)
  show ?case
  proof (cases "outcome ?r")
    case (Inl e)
    with Cons.prems have "acts = ?cb" by (simp add: Let_def)
    with cb show ?thesis by simp
  next
    case (Inr tc)
    obtain t cf where tc: "tc = (t, cf)" by (cases tc)
    let ?ws = "if duration ?r > 15000 then ws @ [durationWarning i (duration ?r)] else ws"
    obtain acts' res' where rest: "pageLoop w jobId langs n (i + 1) cs ?ws = (acts', res')"
      by (cases "pageLoop w jobId langs n (i + 1) cs ?ws")
    let ?A = "AppendSegment jobId \<lparr>pageIndex = i, text_s = t, confidence = cf\<rparr>"
    let ?U = "UpdateJob jobId [Progress (pageProgress i 1 n), Warnings ?ws]"
    from Cons.prems Inr tc rest have acts: "acts = ?cb @ [?A, ?U] @ acts'" by (simp add: Let_def)
    have "\<forall>a \<in> set [?A, ?U]. target a = jobId \<and> (\<forall>e. status (applyToJob a e) = status e)"
      by (simp add: spread_def)
    with cb Cons.IH [OF rest] show ?thesis unfolding acts by (simp only: set_append) blast
  qed
qed

lemma processFileActions_shape:
  "\<exists>rest final.
     processFileActions w avail job file jobId
       = UpdateJob jobId [Status Processing, Progress 0, ErrorF None] # rest @ [final]
     \<and> (\<forall>a \<in> set rest. target a = jobId \<and> (\<forall>e. status (applyToJob a e) = status e))
     \<and> target final = jobId
     \<and> (\<forall>e. id_j e = jobId \<longrightarrow> status (applyToJob final e) = Completed \<or> status (applyToJob final e) = Error)
     \<and> (\<forall>e. id_j e \<noteq> jobId \<longrightarrow> applyToJob final e = e)"
proof (cases rule: processFileActions_cases [of w avail job "file" jobId])
  case (cacheFail x)
  then show ?thesis
    by (intro exI [of _ "[]"] exI [of _ "UpdateJob jobId [Status Error, ErrorF (Some (errorMessage x))]"])
       (simp add: spread_def)
next
  case (resolveFail x)
  then show ?thesis
    by (intro exI [of _ "[]"] exI [of _ "UpdateJob jobId [Status Error, ErrorF (Some (errorMessage x))]"])
       (simp add: spread_def)
next
  case (pageFail cs w0 ex acts x)
  from pageLoop_quiet [OF pageFail(3)] pageFail(4) show ?thesis
    by (intro exI [of _ acts] exI [of _ "UpdateJob jobId [Status Error, ErrorF (Some (errorMessage x))]"])
       (simp add: spread_def)
next
  case (ok cs w0 ex acts ws)
  from pageLoop_quiet [OF ok(3)] ok(4) show ?thesis
    by (intro exI [of _ acts]
          exI [of _ "UpdateJob jobId [Status Completed, CompletedAt (now w), ExtractedText ex,
                                      Warnings ws, Progress 1]"])
       (simp add: spread_def)
qed

lemma processFileActions_targets:
  "\<forall>a \<in> set (processFileActions w avail job file jobId). target a = jobId"
proof -
  obtain rest final where
    "processFileActions w avail job file jobId
       = UpdateJob jobId [Status Processing, Progress 0, ErrorF None] # rest @ [final]"
    "\<forall>a \<in> set rest. target a = jobId \<and> (\<forall>e. status (applyToJob a e) = status e)"
    "target final = jobId"
    using processFileActions_shape [of w avail job "file" jobId] by blast
  then show ?thesis by auto
qed

lemma snapshots_stay_claimed:
  "\<forall>a \<in> set acts. \<forall>e. status e \<noteq> Pending \<longrightarrow> status (applyToJob a e) \<noteq> Pending \<Longrightarrow>
   \<forall>e \<in> set js. id_j e = jobId \<longrightarrow> status e \<noteq> Pending \<Longrightarrow>
   \<forall>table \<in> set (snapshots js acts). \<forall>e \<in> set table. id_j e = jobId \<longrightarrow> status e \<noteq> Pending"
proof (induction acts arbitrary: js)
  case Nil
  then show ?case by simp
next
  case (Cons a acts)
  have "\<forall>e \<in> set (applyAction a js). id_j e = jobId \<longrightarrow> status e \<noteq> Pending"
    using Cons.prems by (auto simp: applyAction_def id_applyToJob simp del: applyToJob.simps)
  with Cons.IH [of "applyAction a js"] Cons.prems show ?case by simp
qed

lemma processFileActions_claimed:
  "\<forall>table \<in> set (tl (snapshots js (processFileActions w avail job file jobId))).
     jobId \<notin> set (pendingDispatch table)"
proof -
  let ?start = "UpdateJob jobId [Status Processing, Progress 0, ErrorF None]"
  obtain rest final where shape:
    "processFileActions w avail job file jobId = ?start # rest @ [final]"
    "\<forall>a \<in> set rest. target a = jobId \<and> (\<forall>e. status (applyToJob a e) = status e)"
    "\<forall>e. id_j e = jobId \<longrightarrow> status (applyToJob final e) = Completed \<or> status (applyToJob final e) = Error"
    "\<forall>e. id_j e \<noteq> jobId \<longrightarrow> applyToJob final e = e"
    using processFileActions_shape [of w avail job "file" jobId] by blast
  have keep: "\<forall>a \<in> set (rest @ [final]). \<forall>e. status e \<noteq> Pending \<longrightarrow> status (applyToJob a e) \<noteq> Pending"
  proof (intro ballI allI impI)
    fix a and e :: OcrJob
    assume a: "a \<in> set (rest @ [final])" and e: "status e \<noteq> Pending"
    show "status (applyToJob a e) \<noteq> Pending"
    proof (cases "a \<in> set rest")
      case True
      with shape(2) e show ?thesis by simp
    next
      case False
      with a have final: "a = final" by simp
      show ?thesis
      proof (cases "id_j e = jobId")
        case True
        with shape(3) have "status (applyToJob final e) = Completed \<or> status (applyToJob final e) = Error"
          by blast
        then show ?thesis unfolding final by (elim disjE) simp_all
      next
        case False
        with shape(4) have "applyToJob final e = e" by blast
        with e show ?thesis unfolding final by simp
      qed
    qed
  qed
  have first: "\<forall>e \<in> set (applyAction ?start js). id_j e = jobId \<longrightarrow> status e \<noteq> Pending"
  proof (intro ballI impI)
    fix e' assume "e' \<in> set (applyAction ?start js)" and idj: "id_j e' = jobId"
    then obtain e where e': "e' = applyToJob ?start e" by (auto simp: applyAction_def simp del: applyToJob.simps)
    with idj have "id_j e = jobId" by (simp only: id_applyToJob)
    then have "status (applyToJob ?start e) = Processing" by (simp add: spread_def)
    then show "status e' \<noteq> Pending" unfolding e' by simp
  qed
  have tail: "tl (snapshots js (processFileActions w avail job file jobId))
          = snapshots (applyAction ?start js) (rest @ [final])"
    by (simp only: shape(1) snapshots.simps list.sel)
  note stay = snapshots_stay_claimed [OF keep first]
  show ?thesis
  proof (intro ballI)
    fix table assume "table \<in> set (tl (snapshots js (processFileActions w avail job file jobId)))"
    then have "table \<in> set (snapshots (applyAction ?start js) (rest @ [final]))" by (simp only: tail)
    with stay have "\<forall>e \<in> set table. id_j e = jobId \<longrightarrow> status e \<noteq> Pending" by blast
    then show "jobId \<notin> set (pendingDispatch table)" by (simp only: pendingDispatch_iff) blast
  qed
qed

lemma processFileActions_terminal:
  assumes "id_j e = jobId"
  shows "status (fold applyToJob (processFileActions w avail job file jobId) e) = Completed
         \<or> status (fold applyToJob (processFileActions w avail job file jobId) e) = Error"
proof -
  let ?start = "UpdateJob jobId [Status Processing, Progress 0, ErrorF None]"
  obtain rest final where shape:
    "processFileActions w avail job file jobId = ?start # rest @ [final]"
    "\<forall>e. id_j e = jobId \<longrightarrow> status (applyToJob final e) = Completed \<or> status (applyToJob final e) = Error"
    using processFileActions_shape [of w avail job "file" jobId] by blast
  have "id_j (fold applyToJob rest (applyToJob ?start e)) = jobId"
    using assms by (simp only: id_fold_applyToJob id_applyToJob)
  with shape(2) show ?thesis by (simp add: shape(1) del: applyToJob.simps)
qed

lemma processFile_other:
  assumes "i \<noteq> jobId"
  shows "findJob jobId (jobs (processFile w avail s i)) = findJob jobId (jobs s)"
    and "fileMap (processFile w avail s i) jobId = fileMap s jobId"
proof -
  have keepJob: "findJob jobId (fold applyAction (processFileActions w avail job f i) (jobs s))
                   = findJob jobId (jobs s)" for job f
  proof (cases "findJob jobId (jobs s)")
    case None
    then show ?thesis by (simp add: find_fold_applyAction)
  next
    case (Some e)
    then have "id_j e = jobId" by (rule find_id)
    with assms have "\<forall>a \<in> set (processFileActions w avail job f i). target a \<noteq> id_j e"
      using processFileActions_targets [of w avail job f i] by simp
    then have "fold applyToJob (processFileActions w avail job f i) e = e"
      by (rule fold_applyToJob_other)
    with Some show ?thesis by (simp add: find_fold_applyAction)
  qed
  show "findJob jobId (jobs (processFile w avail s i)) = findJob jobId (jobs s)"
    using keepJob by (simp add: processFile_def split: option.splits)
  show "fileMap (processFile w avail s i) jobId = fileMap s jobId"
    using assms by (simp add: processFile_def split: option.splits)
qed

lemma dispatch_others:
  "jobId \<notin> set ids \<Longrightarrow>
   findJob jobId (jobs (fold (\<lambda>i s'. processFile w avail s' i) ids s)) = findJob jobId (jobs s)
   \<and> fileMap (fold (\<lambda>i s'. processFile w avail s' i) ids s) jobId = fileMap s jobId"
proof (induction ids arbitrary: s)
  case Nil
  show ?case by simp
next
  case (Cons i ids)
  then have "i \<noteq> jobId" "jobId \<notin> set ids" by auto
  with Cons.IH [of "processFile w avail s i"] processFile_other [of i jobId w avail s]
  show ?case by simp
qed

text \<open>
  C6. The execution driver is the dispatch effect, which calls \<^verbatim>\<open>processFile\<close> for the ids
  of the entries whose status is \<open>Pending\<close> and for no other. For a job that is not
  pending the effect is a no-op: its entry and its file entry are as before. A run of
  \<^verbatim>\<open>processFile\<close> on a job and its file marks the job \<open>Processing\<close> with its first update, so
  the job is pending in no later table of the run; it ends with the job \<open>Completed\<close> or
  \<open>Error\<close> and the file entry removed. After that the job is executed no more: another
  call of \<^verbatim>\<open>processFile\<close> for the same id returns the state as it is, and another run of
  the dispatch effect leaves the job and its file entry unchanged.
\<close>

theorem dispatch_guards_processFile:
  "(jobId \<in> set (pendingDispatch js) \<longleftrightarrow> (\<exists>entry \<in> set js. id_j entry = jobId \<and> status entry = Pending))
   \<and> (jobId \<notin> set (pendingDispatch (jobs s)) \<longrightarrow>
        findJob jobId (jobs (dispatchEffect w avail s)) = findJob jobId (jobs s)
        \<and> fileMap (dispatchEffect w avail s) jobId = fileMap s jobId)
   \<and> (findJob jobId (jobs s) = Some job \<and> fileMap s jobId = Some file \<longrightarrow>
        (\<forall>table \<in> set (tl (snapshots (jobs s) (processFileActions w avail job file jobId))).
            jobId \<notin> set (pendingDispatch table))
        \<and> last (snapshots (jobs s) (processFileActions w avail job file jobId))
            = jobs (processFile w avail s jobId)
        \<and> (\<forall>entry \<in> set (jobs (processFile w avail s jobId)).
              id_j entry = jobId \<longrightarrow> status entry = Completed \<or> status entry = Error)
        \<and> fileMap (processFile w avail s jobId) jobId = None
        \<and> jobId \<notin> set (pendingDispatch (jobs (processFile w avail s jobId)))
        \<and> processFile w' avail' (processFile w avail s jobId) jobId = processFile w avail s jobId
        \<and> findJob jobId (jobs (dispatchEffect w' avail' (processFile w avail s jobId)))
            = findJob jobId (jobs (processFile w avail s jobId))
        \<and> fileMap (dispatchEffect w' avail' (processFile w avail s jobId)) jobId = None)"
proof -
  have quiet: "findJob jobId (jobs (dispatchEffect v a t)) = findJob jobId (jobs t)
               \<and> fileMap (dispatchEffect v a t) jobId = fileMap t jobId"
    if "jobId \<notin> set (pendingDispatch (jobs t))" for v :: "('e, 'f) world" and a t
    using dispatch_others [OF that] by (simp add: dispatchEffect_def)
  have ran: "(\<forall>table \<in> set (tl (snapshots (jobs s) (processFileActions w avail job file jobId))).
            jobId \<notin> set (pendingDispatch table))
        \<and> last (snapshots (jobs s) (processFileActions w avail job file jobId))
            = jobs (processFile w avail s jobId)
        \<and> (\<forall>entry \<in> set (jobs (processFile w avail s jobId)).
              id_j entry = jobId \<longrightarrow> status entry = Completed \<or> status entry = Error)
        \<and> fileMap (processFile w avail s jobId) jobId = None
        \<and> jobId \<notin> set (pendingDispatch (jobs (processFile w avail s jobId)))
        \<and> processFile w' avail' (processFile w avail s jobId) jobId = processFile w avail s jobId
        \<and> findJob jobId (jobs (dispatchEffect w' avail' (processFile w avail s jobId)))
            = findJob jobId (jobs (processFile w avail s jobId))
        \<and> fileMap (dispatchEffect w' avail' (processFile w avail s jobId)) jobId = None"
    if jf: "findJob jobId (jobs s) = Some job" "fileMap s jobId = Some file"
  proof -
    let ?s1 = "processFile w avail s jobId"
    have tables: "jobs ?s1 = map (fold applyToJob (processFileActions w avail job file jobId)) (jobs s)"
      and nofile: "fileMap ?s1 jobId = None"
      using processFile_ran [OF jf, of w avail] by simp_all
    have terminal: "\<forall>entry \<in> set (jobs ?s1). id_j entry = jobId \<longrightarrow>
                      status entry = Completed \<or> status entry = Error"
    proof (intro ballI impI)
      fix entry assume "entry \<in> set (jobs ?s1)" and idj: "id_j entry = jobId"
      then obtain e where e: "entry = fold applyToJob (processFileActions w avail job file jobId) e"
        using tables by auto
      with idj have "id_j e = jobId" by (simp add: id_fold_applyToJob)
      then show "status entry = Completed \<or> status entry = Error"
        unfolding e by (rule processFileActions_terminal)
    qed
    then have notPending: "jobId \<notin> set (pendingDispatch (jobs ?s1))"
      by (auto simp: pendingDispatch_iff)
    have again: "processFile w' avail' ?s1 jobId = ?s1"
      using nofile by (simp add: processFile_def split: option.splits)
    have ends: "last (snapshots (jobs s) (processFileActions w avail job file jobId)) = jobs ?s1"
      using jf by (simp add: last_snapshots processFile_def)
    note claimed = processFileActions_claimed [of "jobs s" w avail job "file" jobId]
    have later: "findJob jobId (jobs (dispatchEffect w' avail' ?s1)) = findJob jobId (jobs ?s1)"
      using quiet [OF notPending, of w' avail'] by (rule conjunct1)
    have "fileMap (dispatchEffect w' avail' ?s1) jobId = fileMap ?s1 jobId"
      using quiet [OF notPending, of w' avail'] by (rule conjunct2)
    with nofile have laterFile: "fileMap (dispatchEffect w' avail' ?s1) jobId = None" by simp
    show ?thesis
      by (rule conjI [OF claimed conjI [OF ends conjI [OF terminal conjI [OF nofile
            conjI [OF notPending conjI [OF again conjI [OF later laterFile]]]]]]])
  qed
  have dispatch: "jobId \<in> set (pendingDispatch js)
                    \<longleftrightarrow> (\<exists>entry \<in> set js. id_j entry = jobId \<and> status entry = Pending)"
    by (rule pendingDispatch_iff)
  have idle: "jobId \<notin> set (pendingDispatch (jobs s)) \<longrightarrow>
        findJob jobId (jobs (dispatchEffect w avail s)) = findJob jobId (jobs s)
        \<and> fileMap (dispatchEffect w avail s) jobId = fileMap s jobId"
    using quiet [of s w avail] by blast
  from ran have "findJob jobId (jobs s) = Some job \<and> fileMap s jobId = Some file \<longrightarrow>
        (\<forall>table \<in> set (tl (snapshots (jobs s) (processFileActions w avail job file jobId))).
            jobId \<notin> set (pendingDispatch table))
        \<and> last (snapshots (jobs s) (processFileActions w avail job file jobId))
            = jobs (processFile w avail s jobId)
        \<and> (\<forall>entry \<in> set (jobs (processFile w avail s jobId)).
              id_j entry = jobId \<longrightarrow> status entry = Completed \<or> status entry = Error)
        \<and> fileMap (processFile w avail s jobId) jobId = None
        \<and> jobId \<notin> set (pendingDispatch (jobs (processFile w avail s jobId)))
        \<and> processFile w' avail' (processFile w avail s jobId) jobId = processFile w avail s jobId
        \<and> findJob jobId (jobs (dispatchEffect w' avail' (processFile w avail s jobId)))
            = findJob jobId (jobs (processFile w avail s jobId))
        \<and> fileMap (dispatchEffect w' avail' (processFile w avail s jobId)) jobId = None"
    by (intro impI) (elim conjE, assumption)
  with dispatch idle show ?thesis by (rule conjI [OF _ conjI])
qed

text \<open>The pending job of the end-to-end scenario is dispatched, runs to \<open>Completed\<close>, and is
  left alone by a second call and by a second run of the effect.\<close>

theorem dispatch_guards_processFile_witness:
  "''job-1'' \<in> set (pendingDispatch (jobs demoState))
   \<and> findJob ''job-1'' (jobs demoState) = Some demoJob
   \<and> fileMap demoState ''job-1'' = Some demoFile
   \<and> findJob ''job-1'' (jobs (processFile (demoWorld [7, 8] helloWorld) [] demoState ''job-1''))
       = Some (demoJob\<lparr>status := Completed, progress := 1, completedAt := Some 1000,
                 segments := [\<lparr>pageIndex = 0, text_s = ''Hello'', confidence = 481 / 5\<rparr>,
                              \<lparr>pageIndex = 1, text_s = ''World'', confidence = 91\<rparr>]\<rparr>)
   \<and> fileMap (processFile (demoWorld [7, 8] helloWorld) [] demoState ''job-1'') ''job-1'' = None
   \<and> ''job-1'' \<notin> set (pendingDispatch (jobs (processFile (demoWorld [7, 8] helloWorld) [] demoState ''job-1'')))
   \<and> processFile (demoWorld [7, 8] helloWorld) []
         (processFile (demoWorld [7, 8] helloWorld) [] demoState ''job-1'') ''job-1''
       = processFile (demoWorld [7, 8] helloWorld) [] demoState ''job-1''
   \<and> findJob ''job-1''
         (jobs (dispatchEffect (demoWorld [7, 8] helloWorld) []
                  (processFile (demoWorld [7, 8] helloWorld) [] demoState ''job-1'')))
       = Some (demoJob\<lparr>status := Completed, progress := 1, completedAt := Some 1000,
                 segments := [\<lparr>pageIndex = 0, text_s = ''Hello'', confidence = 481 / 5\<rparr>,
                              \<lparr>pageIndex = 1, text_s = ''World'', confidence = 91\<rparr>]\<rparr>)
   \<and> fileMap (dispatchEffect (demoWorld [7, 8] helloWorld) []
                  (processFile (demoWorld [7, 8] helloWorld) [] demoState ''job-1'')) ''job-1'' = None"
proof -
  let ?w = "demoWorld [7, 8] helloWorld"
  let ?s1 = "processFile ?w [] demoState ''job-1''"
  let ?done = "demoJob\<lparr>status := Completed, progress := 1, completedAt := Some 1000,
                 segments := [\<lparr>pageIndex = 0, text_s = ''Hello'', confidence = 481 / 5\<rparr>,
                              \<lparr>pageIndex = 1, text_s = ''World'', confidence = 91\<rparr>]\<rparr>"
  have pending: "\<exists>entry \<in> set (jobs demoState). id_j entry = ''job-1'' \<and> status entry = Pending"
    by (simp add: demoState_eq demo_fresh)
  have run: "findJob ''job-1'' (jobs ?s1) = Some ?done"
    using processFile_found [OF demo_found demo_hasFile, of ?w "[]"] by (simp add: run_hello)
  note first = dispatch_guards_processFile
    [of "''job-1''" "jobs demoState" demoState ?w "[]" demoJob demoFile ?w "[]"]
  from first pending have 1: "''job-1'' \<in> set (pendingDispatch (jobs demoState))" by blast
  from first demo_found demo_hasFile
  have 2: "fileMap ?s1 ''job-1'' = None"
    and 3: "''job-1'' \<notin> set (pendingDispatch (jobs ?s1))"
    and 4: "processFile ?w [] ?s1 ''job-1'' = ?s1"
    by blast+
  note second = dispatch_guards_processFile
    [of "''job-1''" "jobs ?s1" ?s1 ?w "[]" demoJob demoFile ?w "[]"]
  from second 3
  have "findJob ''job-1'' (jobs (dispatchEffect ?w [] ?s1)) = findJob ''job-1'' (jobs ?s1)"
    and "fileMap (dispatchEffect ?w [] ?s1) ''job-1'' = fileMap ?s1 ''job-1''"
    by blast+
  with run 2 have 5: "findJob ''job-1'' (jobs (dispatchEffect ?w [] ?s1)) = Some ?done"
    and 6: "fileMap (dispatchEffect ?w [] ?s1) ''job-1'' = None" by simp_all
  show ?thesis
    by (rule conjI [OF 1 conjI [OF demo_found conjI [OF demo_hasFile conjI [OF run
          conjI [OF 2 conjI [OF 3 conjI [OF 4 conjI [OF 5 6]]]]]]]])
qed

subsection \<open>Intake\<close>

lemma fold_admit:
  "jobs (fold (admit clock langs) entries s)
     = rev (map (\<lambda>(jobId, file). pendingJob jobId clock langs file) entries) @ jobs s"
  by (induction entries arbitrary: s) (auto simp: admit_def)

lemma handleLanguageToggle_nonempty: "prev \<noteq> [] \<Longrightarrow> handleLanguageToggle c prev \<noteq> []"
  by (simp add: handleLanguageToggle_def Let_def)

lemma accepts_notesFile: "\<not> accepts notesFile"
  by (simp add: accepts_def notesFile_def includes_l_def SUPPORTED_FILE_TYPES_def isImage_def
      isPdf_def isDocx_def startsWith_def endsWith_def)

lemma demoUuid_values: "demoUuid 0 = ''job-0''" "demoUuid 1 = ''job-1''" "demoUuid (Suc 0) = ''job-1''"
  by (simp_all add: demoUuid_def show_nat.simps digit_def)

lemma handleLanguageImport_nonempty:
  "selectedLanguages panel \<noteq> [] \<Longrightarrow> selectedLanguages (handleLanguageImport importer panel) \<noteq> []"
  by (auto simp: handleLanguageImport_def split: option.splits sum.splits)

text \<open>
  C5, as the code has it. The language selection is never empty: it starts as
  \<^verbatim>\<open>["eng"]\<close>, \<^verbatim>\<open>handleLanguageToggle\<close> ignores the removal of the last language and
  \<^verbatim>\<open>handleLanguageImport\<close> only adds to it. \<^verbatim>\<open>handleFiles\<close> has no failure result: every
  file of a recognized class becomes a pending job that carries the selection, and when
  some file is of no recognized class one more entry is put into the table, with status
  \<open>Error\<close> and the names of the rejected files.
\<close>

theorem handleFiles_admits_without_validation:
  "jobs (handleFiles uuid clock langs (Some files) s)
     = rev (map (\<lambda>(jobId, file). pendingJob jobId clock langs file)
              (zip (map uuid [(if \<exists>file \<in> set files. \<not> accepts file then 1 else 0) ..<
                              (if \<exists>file \<in> set files. \<not> accepts file then 1 else 0)
                                + length (filter accepts files)])
                   (filter accepts files)))
       @ (if \<exists>file \<in> set files. \<not> accepts file
          then [unsupportedJob (uuid 0) clock langs (map name_f (filter (\<lambda>file. \<not> accepts file) files))]
          else [])
       @ jobs s
   \<and> status (unsupportedJob jobId clock langs names) = Error
   \<and> status (pendingJob jobId clock langs file) = Pending
   \<and> languages (pendingJob jobId clock langs file) = langs
   \<and> initialSelectedLanguages \<noteq> []
   \<and> (prev \<noteq> [] \<longrightarrow> handleLanguageToggle c prev \<noteq> [])
   \<and> (selectedLanguages panel \<noteq> [] \<longrightarrow>
        selectedLanguages (handleLanguageImport importer panel) \<noteq> [])"
proof -
  have rej: "(filter (\<lambda>file. \<not> accepts file) files \<noteq> []) = (\<exists>file \<in> set files. \<not> accepts file)"
    by (simp add: filter_empty_conv)
  have "jobs (handleFiles uuid clock langs (Some files) s)
     = rev (map (\<lambda>(jobId, file). pendingJob jobId clock langs file)
              (zip (map uuid [(if \<exists>file \<in> set files. \<not> accepts file then 1 else 0) ..<
                              (if \<exists>file \<in> set files. \<not> accepts file then 1 else 0)
                                + length (filter accepts files)])
                   (filter accepts files)))
       @ (if \<exists>file \<in> set files. \<not> accepts file
          then [unsupportedJob (uuid 0) clock langs (map name_f (filter (\<lambda>file. \<not> accepts file) files))]
          else [])
       @ jobs s"
    using rej by (simp add: handleFiles_def Let_def fold_admit)
  then show ?thesis
    by (simp add: handleLanguageToggle_nonempty handleLanguageImport_nonempty
        initialSelectedLanguages_def unsupportedJob_def pendingJob_def)
qed

text \<open>
  C5 as stated fails: with the initial selection \<^verbatim>\<open>["eng"]\<close>, submitting a plain-text
  file does not fail and creates a job entry, with status \<open>Error\<close> and the message
  \<^verbatim>\<open>Unsupported files: notes.txt\<close>; submitted together with a PDF, the PDF is admitted as a
  pending job all the same.
\<close>

theorem intake_creates_jobs_counterexample:
  "initialSelectedLanguages = [''eng'']
   \<and> \<not> accepts notesFile
   \<and> jobs (handleFiles demoUuid 0 initialSelectedLanguages (Some [notesFile]) noFiles)
       = [unsupportedJob ''job-0'' 0 [''eng''] [''notes.txt'']]
   \<and> jobs (handleFiles demoUuid 0 initialSelectedLanguages (Some [demoFile, notesFile]) noFiles)
       = [pendingJob ''job-1'' 0 [''eng''] demoFile, unsupportedJob ''job-0'' 0 [''eng''] [''notes.txt'']]
   \<and> status (unsupportedJob ''job-0'' 0 [''eng''] [''notes.txt'']) = Error
   \<and> error (unsupportedJob ''job-0'' 0 [''eng''] [''notes.txt'']) = Some ''Unsupported files: notes.txt''
   \<and> status (pendingJob ''job-1'' 0 [''eng''] demoFile) = Pending"
proof -
  have nm: "name_f notesFile = ''notes.txt''" by (simp add: notesFile_def)
  have "jobs (handleFiles demoUuid 0 initialSelectedLanguages (Some [notesFile]) noFiles)
       = [unsupportedJob ''job-0'' 0 [''eng''] [''notes.txt'']]"
    by (simp add: handleFiles_def Let_def accepts_notesFile nm demoUuid_values noFiles_def
        initialSelectedLanguages_def)
  moreover have "jobs (handleFiles demoUuid 0 initialSelectedLanguages (Some [demoFile, notesFile]) noFiles)
       = [pendingJob ''job-1'' 0 [''eng''] demoFile, unsupportedJob ''job-0'' 0 [''eng''] [''notes.txt'']]"
    by (simp add: handleFiles_def Let_def admit_def accepts_demoFile accepts_notesFile nm
        demoUuid_values noFiles_def initialSelectedLanguages_def upt_rec)
  ultimately show ?thesis
    by (simp add: accepts_notesFile initialSelectedLanguages_def unsupportedJob_def pendingJob_def)
qed

text \<open>A PDF and a plain-text file submitted with the initial selection, and a language pack
  imported into a panel with English selected.\<close>

theorem handleFiles_admits_without_validation_witness:
  "\<not> accepts notesFile
   \<and> jobs (handleFiles demoUuid 0 initialSelectedLanguages (Some [demoFile, notesFile]) noFiles)
       = [pendingJob ''job-1'' 0 initialSelectedLanguages demoFile,
          unsupportedJob ''job-0'' 0 initialSelectedLanguages [''notes.txt'']]
   \<and> initialSelectedLanguages \<noteq> []
   \<and> handleLanguageToggle ''eng'' initialSelectedLanguages \<noteq> []
   \<and> selectedLanguages importPanel \<noteq> []
   \<and> selectedLanguages (handleLanguageImport demoImporter importPanel) \<noteq> []"
proof -
  have nm: "name_f notesFile = ''notes.txt''" by (simp add: notesFile_def)
  have panel: "selectedLanguages importPanel \<noteq> []" by (simp add: importPanel_def)
  note fact = handleFiles_admits_without_validation
    [of demoUuid 0 initialSelectedLanguages "[demoFile, notesFile]" noFiles "''job-0''" "[]" demoFile
        initialSelectedLanguages "''eng''" importPanel demoImporter]
  from fact have ne: "initialSelectedLanguages \<noteq> []" by blast
  with fact have toggle: "handleLanguageToggle ''eng'' initialSelectedLanguages \<noteq> []" by blast
  from fact panel have imp: "selectedLanguages (handleLanguageImport demoImporter importPanel) \<noteq> []"
    by blast
  from fact have "jobs (handleFiles demoUuid 0 initialSelectedLanguages (Some [demoFile, notesFile]) noFiles)
     = [pendingJob ''job-1'' 0 initialSelectedLanguages demoFile,
        unsupportedJob ''job-0'' 0 initialSelectedLanguages [''notes.txt'']]"
    by (simp add: accepts_demoFile accepts_notesFile nm demoUuid_values noFiles_def upt_rec)
  with ne toggle panel imp accepts_notesFile show ?thesis by simp
qed

subsection \<open>Import of a language pack\<close>

lemma toLowerCase_ENG: "toLowerCase ''ENG'' = ''eng''"
  by (simp add: toLowerCase_def toLowerChar_def)

lemma toUpperCase_eng: "toUpperCase ''eng'' = ''ENG''"
  by (simp add: toUpperCase_def toUpperChar_def)

text \<open>
  C7 at a concrete input: importing a pack under \<^verbatim>\<open>ENG\<close> while \<^verbatim>\<open>eng\<close> is registered
  leaves two registry entries with the code \<^verbatim>\<open>eng\<close>; the lookup of \<^verbatim>\<open>processFile\<close> still
  finds the bundled entry, and only the selection is kept free of duplicates.
\<close>

theorem import_appends_duplicate_code:
  "availableLanguages (handleLanguageImport demoImporter importPanel)
     = [bundledEnglish,
        \<lparr>code = ''eng'', label = ''ENG'', path = ''/tesseract/imported/eng.traineddata'', builtIn = False\<rparr>]
   \<and> map code (availableLanguages (handleLanguageImport demoImporter importPanel)) = [''eng'', ''eng'']
   \<and> findLanguage (availableLanguages (handleLanguageImport demoImporter importPanel)) ''eng''
       = Some bundledEnglish
   \<and> selectedLanguages (handleLanguageImport demoImporter importPanel) = [''eng'']"
  by (simp add: handleLanguageImport_def importPanel_def demoImporter_def toLowerCase_ENG
      toUpperCase_eng trim_def isSpace_def includes_l_def findLanguage_def bundledEnglish_def)

subsection \<open>Progress over the snapshots of a run\<close>

lemma jobSnapshots_head: "\<exists>rest. jobSnapshots job acts = job # rest"
  by (cases acts) simp_all

lemma sorted_trace_Cons:
  "sorted (map progress (jobSnapshots job (a # acts)))
     \<longleftrightarrow> progress job \<le> progress (applyToJob a job)
         \<and> sorted (map progress (jobSnapshots (applyToJob a job) acts))"
proof -
  obtain rest where "jobSnapshots (applyToJob a job) acts = applyToJob a job # rest"
    using jobSnapshots_head by blast
  then show ?thesis by (auto simp del: applyToJob.simps)
qed

lemma sorted_trace_append:
  "sorted (map progress (jobSnapshots job (as @ bs)))
     \<longleftrightarrow> sorted (map progress (jobSnapshots job as))
         \<and> sorted (map progress (jobSnapshots (fold applyToJob as job) bs))"
proof (induction as arbitrary: job)
  case Nil
  show ?case by simp
next
  case (Cons a as)
  have "sorted (map progress (jobSnapshots job ((a # as) @ bs)))
        \<longleftrightarrow> progress job \<le> progress (applyToJob a job)
            \<and> sorted (map progress (jobSnapshots (applyToJob a job) (as @ bs)))"
    using sorted_trace_Cons [of job a "as @ bs"] by simp
  also have "\<dots> \<longleftrightarrow> progress job \<le> progress (applyToJob a job)
            \<and> sorted (map progress (jobSnapshots (applyToJob a job) as))
            \<and> sorted (map progress (jobSnapshots (fold applyToJob as (applyToJob a job)) bs))"
    using Cons.IH by simp
  also have "\<dots> \<longleftrightarrow> sorted (map progress (jobSnapshots job (a # as)))
            \<and> sorted (map progress (jobSnapshots (fold applyToJob (a # as) job) bs))"
    using sorted_trace_Cons [of job a as] by simp
  finally show ?case .
qed

lemma callbacks_trace:
  "id_j job = jobId \<Longrightarrow> sorted (progress job # map f ps) \<Longrightarrow>
   sorted (map progress (jobSnapshots job (map (\<lambda>p. UpdateJob jobId [Progress (f p)]) ps)))
   \<and> fold applyToJob (map (\<lambda>p. UpdateJob jobId [Progress (f p)]) ps) job
       = job\<lparr>progress := last (progress job # map f ps)\<rparr>"
proof (induction ps arbitrary: job)
  case Nil
  then show ?case by simp
next
  case (Cons p ps)
  let ?job1 = "job\<lparr>progress := f p\<rparr>"
  have step: "applyToJob (UpdateJob jobId [Progress (f p)]) job = ?job1"
    using Cons.prems(1) by (simp add: spread_def)
  have "id_j ?job1 = jobId" using Cons.prems(1) by simp
  moreover have "sorted (progress ?job1 # map f ps)" using Cons.prems(2) by simp
  ultimately have ih:
    "sorted (map progress (jobSnapshots ?job1 (map (\<lambda>p. UpdateJob jobId [Progress (f p)]) ps)))"
    "fold applyToJob (map (\<lambda>p. UpdateJob jobId [Progress (f p)]) ps) ?job1
       = ?job1\<lparr>progress := last (progress ?job1 # map f ps)\<rparr>"
    using Cons.IH by blast+
  have "progress job \<le> f p" using Cons.prems(2) by simp
  with ih step show ?case
    using sorted_trace_Cons [of job "UpdateJob jobId [Progress (f p)]" "map (\<lambda>p. UpdateJob jobId [Progress (f p)]) ps"]
    by (simp del: applyToJob.simps)
qed

lemma pageProgress_mono: "p \<le> q \<Longrightarrow> pageProgress i p n \<le> pageProgress i q n"
  by (simp add: pageProgress_def divide_right_mono)

lemma pageProgress_lower: "0 \<le> p \<Longrightarrow> pageProgress i 0 n \<le> pageProgress i p n"
  by (rule pageProgress_mono)

lemma pageProgress_next: "pageProgress i 1 n = pageProgress (Suc i) 0 n"
  by (simp add: pageProgress_def add.commute)

lemma pageProgress_index_mono: "i \<le> j \<Longrightarrow> pageProgress i 0 n \<le> pageProgress j 0 n"
  by (simp add: pageProgress_def divide_right_mono)

lemma pageProgress_end: "pageProgress n 0 n \<le> 1"
  by (simp add: pageProgress_def)

lemma last_le:
  fixes x :: real
  shows "\<forall>y \<in> set (x # xs). y \<le> b \<Longrightarrow> last (x # xs) \<le> b"
  by (metis last_in_set list.distinct(1))

lemma pageLoop_trace:
  "id_j job = jobId \<Longrightarrow> progress job \<le> pageProgress i 0 n \<Longrightarrow>
   \<forall>(j, c) \<in> set (enumerate i cs).
      sorted (reported (recognizeImage w j c langs))
      \<and> (\<forall>p \<in> set (reported (recognizeImage w j c langs)). 0 \<le> p \<and> p \<le> 1) \<Longrightarrow>
   pageLoop w jobId langs n i cs ws = (acts, res) \<Longrightarrow>
   sorted (map progress (jobSnapshots job acts))
   \<and> progress (fold applyToJob acts job) \<le> pageProgress (i + length cs) 0 n
   \<and> id_j (fold applyToJob acts job) = jobId"
proof (induction cs arbitrary: job i ws acts res)
  case Nil
  then show ?case by simp
next
  case (Cons c cs)
  let ?r = "recognizeImage w i c langs"
  let ?f = "\<lambda>p. pageProgress i p n"
  let ?cb = "map (\<lambda>p. UpdateJob jobId [Progress (?f p)]) (reported ?r)"
  from Cons.prems(3) have ps: "sorted (reported ?r)" "\<forall>p \<in> set (reported ?r). 0 \<le> p \<and> p \<le> 1"
    by simp_all
  have lower: "\<forall>p \<in> set (reported ?r). progress job \<le> ?f p"
    using ps(2) Cons.prems(2) pageProgress_lower [of _ i n] by (meson order_trans)
  have "sorted (map ?f (reported ?r))"
    using ps(1) by (simp add: sorted_map sorted_wrt_mono_rel [of _ "(\<le>)"] pageProgress_mono)
  with lower have srt: "sorted (progress job # map ?f (reported ?r))" by simp
  from callbacks_trace [OF Cons.prems(1) srt]
  have cb: "sorted (map progress (jobSnapshots job ?cb))"
    and job1: "fold applyToJob ?cb job = job\<lparr>progress := last (progress job # map ?f (reported ?r))\<rparr>"
    by blast+
  let ?job1 = "job\<lparr>progress := last (progress job # map ?f (reported ?r))\<rparr>"
  have "progress job \<le> ?f 1"
    using Cons.prems(2) pageProgress_mono [of 0 1 i n] by simp
  then have "\<forall>y \<in> set (progress job # map ?f (reported ?r)). y \<le> ?f 1"
    using ps(2) pageProgress_mono [of _ 1 i n] by auto
  then have up: "progress ?job1 \<le> pageProgress (Suc i) 0 n"
    using last_le [of "progress job" "map ?f (reported ?r)" "?f 1"]
    by (simp add: pageProgress_next del: last.simps)
  show ?case
  proof (cases "outcome ?r")
    case (Inl e)
    with Cons.prems(4) have acts: "acts = ?cb" by (simp add: Let_def)
    have "pageProgress (Suc i) 0 n \<le> pageProgress (i + length (c # cs)) 0 n"
      by (rule pageProgress_index_mono) simp
    with up have "progress ?job1 \<le> pageProgress (i + length (c # cs)) 0 n" by (rule order_trans)
    with cb job1 Cons.prems(1) show ?thesis by (simp add: acts del: last.simps)
  next
    case (Inr tc)
    obtain t cf where tc: "tc = (t, cf)" by (cases tc)
    let ?ws = "if duration ?r > 15000 then ws @ [durationWarning i (duration ?r)] else ws"
    obtain acts' res' where rest: "pageLoop w jobId langs n (Suc i) cs ?ws = (acts', res')"
      by (cases "pageLoop w jobId langs n (Suc i) cs ?ws")
    let ?A = "AppendSegment jobId \<lparr>pageIndex = i, text_s = t, confidence = cf\<rparr>"
    let ?U = "UpdateJob jobId [Progress (pageProgress i 1 n), Warnings ?ws]"
    from Cons.prems(4) Inr tc rest
    have acts: "acts = ?cb @ ?A # ?U # acts'" by (simp add: Let_def)
    let ?job2 = "applyToJob ?U (applyToJob ?A ?job1)"
    have id2: "id_j ?job2 = jobId" using Cons.prems(1) by (simp add: id_spread)
    have pA: "progress (applyToJob ?A ?job1) = progress ?job1" using Cons.prems(1) by simp
    have p2: "progress ?job2 = pageProgress (Suc i) 0 n"
      using Cons.prems(1) by (simp add: spread_def pageProgress_next)
    have wb: "\<forall>(j, c) \<in> set (enumerate (Suc i) cs).
      sorted (reported (recognizeImage w j c langs))
      \<and> (\<forall>p \<in> set (reported (recognizeImage w j c langs)). 0 \<le> p \<and> p \<le> 1)"
      using Cons.prems(3) by simp
    from Cons.IH [OF id2 _ wb rest] p2
    have ih: "sorted (map progress (jobSnapshots ?job2 acts'))"
      "progress (fold applyToJob acts' ?job2) \<le> pageProgress (Suc i + length cs) 0 n"
      "id_j (fold applyToJob acts' ?job2) = jobId" by simp_all
    have tail: "sorted (map progress (jobSnapshots ?job1 (?A # ?U # acts')))"
      using sorted_trace_Cons [of ?job1 ?A "?U # acts'"]
            sorted_trace_Cons [of "applyToJob ?A ?job1" ?U acts'] pA p2 up ih(1)
      by (simp del: applyToJob.simps last.simps)
    have "sorted (map progress (jobSnapshots job acts))"
      using sorted_trace_append [of job ?cb "?A # ?U # acts'"] cb tail job1
      by (simp add: acts del: applyToJob.simps last.simps)
    moreover have "fold applyToJob acts job = fold applyToJob acts' ?job2"
      by (simp add: acts job1 del: applyToJob.simps last.simps)
    ultimately show ?thesis using ih(2,3) by (simp del: applyToJob.simps last.simps)
  qed
qed

lemma length_applyAction: "length (applyAction a js) = length js"
  by (simp add: applyAction_def)

lemma snapshots_nth:
  "k < length js \<Longrightarrow> map (\<lambda>table. table ! k) (snapshots js acts) = jobSnapshots (js ! k) acts"
  by (induction acts arbitrary: js) (simp_all add: length_applyAction, simp add: applyAction_def)

lemma processFileActions_trace:
  assumes idj: "id_j job = jobId"
    and start: "progress job = 0"
    and wellBehaved:
      "\<forall>canvases ws0 extracted. resolveFile w file = Inr (canvases, ws0, extracted) \<longrightarrow>
         (\<forall>(j, c) \<in> set (enumerate 0 canvases).
            sorted (reported (recognizeImage w j c (languages job)))
            \<and> (\<forall>p \<in> set (reported (recognizeImage w j c (languages job))). 0 \<le> p \<and> p \<le> 1))"
  shows "sorted (map progress (jobSnapshots job (processFileActions w avail job file jobId)))"
proof -
  let ?start = "UpdateJob jobId [Status Processing, Progress 0, ErrorF None]"
  let ?job0 = "applyToJob ?start job"
  have id0: "id_j ?job0 = jobId" using idj by (simp add: id_spread)
  have p0: "progress ?job0 = 0" using idj by (simp add: spread_def)
  have first: "sorted (map progress (jobSnapshots job (?start # acts)))
               \<longleftrightarrow> sorted (map progress (jobSnapshots ?job0 acts))" for acts
    using sorted_trace_Cons [of job ?start acts] start p0 by (simp del: applyToJob.simps)
  have failing: "sorted (map progress (jobSnapshots mid
                   [UpdateJob jobId [Status Error, ErrorF (Some (errorMessage e))]]))"
    for mid e by (simp add: spread_def)
  show ?thesis
  proof (cases rule: processFileActions_cases [of w avail job "file" jobId])
    case (cacheFail e)
    then show ?thesis using first failing by (simp del: applyToJob.simps jobSnapshots.simps)
  next
    case (resolveFail e)
    then show ?thesis using first failing by (simp del: applyToJob.simps jobSnapshots.simps)
  next
    case (pageFail cs w0 ex acts e)
    from wellBehaved pageFail(2) have wb: "\<forall>(j, c) \<in> set (enumerate 0 cs).
            sorted (reported (recognizeImage w j c (languages job)))
            \<and> (\<forall>p \<in> set (reported (recognizeImage w j c (languages job))). 0 \<le> p \<and> p \<le> 1)"
      by blast
    have "progress ?job0 \<le> pageProgress 0 0 (length cs)" using p0 by (simp add: pageProgress_def)
    from pageLoop_trace [OF id0 this wb pageFail(3)]
    have "sorted (map progress (jobSnapshots ?job0 acts))" by blast
    then have "sorted (map progress (jobSnapshots ?job0
                 (acts @ [UpdateJob jobId [Status Error, ErrorF (Some (errorMessage e))]])))"
      using sorted_trace_append [of ?job0 acts] failing by blast
    then show ?thesis using first pageFail(4) by (simp del: applyToJob.simps jobSnapshots.simps)
  next
    case (ok cs w0 ex acts ws)
    from wellBehaved ok(2) have wb: "\<forall>(j, c) \<in> set (enumerate 0 cs).
            sorted (reported (recognizeImage w j c (languages job)))
            \<and> (\<forall>p \<in> set (reported (recognizeImage w j c (languages job))). 0 \<le> p \<and> p \<le> 1)"
      by blast
    have "progress ?job0 \<le> pageProgress 0 0 (length cs)" using p0 by (simp add: pageProgress_def)
    from pageLoop_trace [OF id0 this wb ok(3)]
    have loop: "sorted (map progress (jobSnapshots ?job0 acts))"
      and "progress (fold applyToJob acts ?job0) \<le> pageProgress (0 + length cs) 0 (length cs)"
      and idm: "id_j (fold applyToJob acts ?job0) = jobId" by blast+
    then have "progress (fold applyToJob acts ?job0) \<le> 1"
      using pageProgress_end [of "length cs"] by simp
    then have "sorted (map progress (jobSnapshots (fold applyToJob acts ?job0)
                 [UpdateJob jobId [Status Completed, CompletedAt (now w), ExtractedText ex,
                                   Warnings ws, Progress 1]]))"
      using idm by (simp add: spread_def)
    with loop have "sorted (map progress (jobSnapshots ?job0
                 (acts @ [UpdateJob jobId [Status Completed, CompletedAt (now w), ExtractedText ex,
                                   Warnings ws, Progress 1]])))"
      using sorted_trace_append [of ?job0 acts] by blast
    then show ?thesis using first ok(4) by (simp del: applyToJob.simps jobSnapshots.simps)
  qed
qed

text \<open>
  C8, as the code has it. \<^verbatim>\<open>processFile\<close> writes \<open>(index + p) / pageCount\<close> for every
  fraction \<open>p\<close> the recognition reports, without a maximum or a clamp. When the fractions
  reported within each page are in non-decreasing order and lie between 0 and 1, the
  progress of a job that starts at 0 is non-decreasing over the successive tables, from
  the pending entry to the table \<^verbatim>\<open>processFile\<close> ends with.
\<close>

theorem progress_nondecreasing_for_ordered_callbacks:
  assumes found: "findJob jobId (jobs s) = Some job"
    and hasFile: "fileMap s jobId = Some file"
    and entry: "k < length (jobs s)" "jobs s ! k = job"
    and start: "progress job = 0"
    and wellBehaved:
      "\<forall>canvases ws0 extracted. resolveFile w file = Inr (canvases, ws0, extracted) \<longrightarrow>
         (\<forall>(j, c) \<in> set (enumerate 0 canvases).
            sorted (reported (recognizeImage w j c (languages job)))
            \<and> (\<forall>p \<in> set (reported (recognizeImage w j c (languages job))). 0 \<le> p \<and> p \<le> 1))"
  shows "sorted (progressAt k
                     (snapshots (jobs s) (processFileActions w avail job file jobId)))
         \<and> last (snapshots (jobs s) (processFileActions w avail job file jobId))
             = jobs (processFile w avail s jobId)"
proof -
  have idj: "id_j job = jobId" using found by (rule find_id)
  have "progressAt k (snapshots (jobs s) (processFileActions w avail job file jobId))
        = map progress (map (\<lambda>table. table ! k) (snapshots (jobs s) (processFileActions w avail job file jobId)))"
    by (simp add: progressAt_def)
  also have "\<dots> = map progress (jobSnapshots job (processFileActions w avail job file jobId))"
    using snapshots_nth [OF entry(1)] entry(2) by simp
  finally have "sorted (progressAt k
                     (snapshots (jobs s) (processFileActions w avail job file jobId)))"
    using processFileActions_trace [OF idj start wellBehaved] by simp
  moreover have "last (snapshots (jobs s) (processFileActions w avail job file jobId))
             = jobs (processFile w avail s jobId)"
    using found hasFile by (simp add: last_snapshots processFile_def)
  ultimately show ?thesis by blast
qed

theorem progress_nondecreasing_for_ordered_callbacks_witness:
  "findJob ''job-1'' (jobs demoState) = Some demoJob
   \<and> fileMap demoState ''job-1'' = Some demoFile
   \<and> (0::nat) < length (jobs demoState)
   \<and> jobs demoState ! 0 = demoJob
   \<and> progress demoJob = 0
   \<and> resolveFile (demoWorld [7, 8] helloWorld) demoFile = Inr ([7, 8], [], '''')
   \<and> reported (recognizeImage (demoWorld [7, 8] helloWorld) 0 7 (languages demoJob)) = [1 / 2]
   \<and> reported (recognizeImage (demoWorld [7, 8] helloWorld) 1 8 (languages demoJob)) = [1 / 2]
   \<and> progressAt 0
         (snapshots (jobs demoState)
            (processFileActions (demoWorld [7, 8] helloWorld) [] demoJob demoFile ''job-1''))
       = [0, 0, 1 / 4, 1 / 4, 1 / 2, 3 / 4, 3 / 4, 1, 1]
   \<and> sorted (progressAt 0
         (snapshots (jobs demoState)
            (processFileActions (demoWorld [7, 8] helloWorld) [] demoJob demoFile ''job-1'')))"
proof -
  let ?w = "demoWorld [7, 8] helloWorld"
  have entry: "(0::nat) < length (jobs demoState)" "jobs demoState ! 0 = demoJob"
    by (simp_all add: demoState_eq)
  have pages: "resolveFile ?w demoFile = Inr ([7, 8], [], '''')" by (rule resolve_demoFile)
  have rep: "reported (recognizeImage ?w 0 7 (languages demoJob)) = [1 / 2]"
    "reported (recognizeImage ?w 1 8 (languages demoJob)) = [1 / 2]"
    by (simp_all add: demoWorld_sel helloWorld_def okPage_def)
  have wellBehaved:
    "\<forall>canvases ws0 extracted. resolveFile ?w demoFile = Inr (canvases, ws0, extracted) \<longrightarrow>
       (\<forall>(j, c) \<in> set (enumerate 0 canvases).
          sorted (reported (recognizeImage ?w j c (languages demoJob)))
          \<and> (\<forall>p \<in> set (reported (recognizeImage ?w j c (languages demoJob))). 0 \<le> p \<and> p \<le> 1))"
    by (simp add: resolve_demoFile demoWorld_sel helloWorld_def okPage_def)
  have trace: "progressAt 0
         (snapshots (jobs demoState) (processFileActions ?w [] demoJob demoFile ''job-1''))
       = [0, 0, 1 / 4, 1 / 4, 1 / 2, 3 / 4, 3 / 4, 1, 1]"
    by (simp add: progressAt_def actions_hello demoState_eq applyAction_def spread_def demo_fresh)
  from progress_nondecreasing_for_ordered_callbacks
         [OF demo_found demo_hasFile entry demo_fresh(5) wellBehaved, of "[]"]
  have "sorted (progressAt 0
         (snapshots (jobs demoState) (processFileActions ?w [] demoJob demoFile ''job-1'')))"
    by blast
  with demo_found demo_hasFile entry demo_fresh(5) pages rep trace show ?thesis by blast
qed

text \<open>
  C8 as stated fails: when the recognition of the only page reports 0.9 and then 0.5,
  the progress of the job reads 0, 0, 0.9, 0.5, 0.5, 1, 1 over the successive tables.
\<close>

theorem progress_goes_back_counterexample:
  "progressAt 0
       (snapshots (jobs demoState)
          (processFileActions (demoWorld [7] backwardCallbacks) [] demoJob demoFile ''job-1''))
     = [0, 0, 9 / 10, 1 / 2, 1 / 2, 1, 1]
   \<and> \<not> sorted [0, 0, 9 / 10, 1 / 2, 1 / 2, 1, 1 :: real]
   \<and> last (snapshots (jobs demoState)
          (processFileActions (demoWorld [7] backwardCallbacks) [] demoJob demoFile ''job-1''))
       = jobs (processFile (demoWorld [7] backwardCallbacks) [] demoState ''job-1'')"
proof -
  have "progressAt 0
       (snapshots (jobs demoState)
          (processFileActions (demoWorld [7] backwardCallbacks) [] demoJob demoFile ''job-1''))
     = [0, 0, 9 / 10, 1 / 2, 1 / 2, 1, 1]"
    by (simp add: progressAt_def actions_backward demoState_eq applyAction_def spread_def demo_fresh)
  moreover have "last (snapshots (jobs demoState)
          (processFileActions (demoWorld [7] backwardCallbacks) [] demoJob demoFile ''job-1''))
       = jobs (processFile (demoWorld [7] backwardCallbacks) [] demoState ''job-1'')"
    using demo_found demo_hasFile by (simp add: last_snapshots processFile_def)
  ultimately show ?thesis by simp
qed

subsection \<open>The language cache of the service worker\<close>

text \<open>A network fetch that throws takes the \<^verbatim>\<open>catch\<close> branch, which does not reach
  \<^verbatim>\<open>cache.put\<close>: the cache is as before and a later handler for the same URL fetches
  again.\<close>

lemma eng_facts:
  "startsWith (pathname engRequest) ''/tesseract/''" "emptyCache u = None"
  "engRequests i = engRequest"
  by (simp_all add: engRequest_def startsWith_def emptyCache_def engRequests_def)

lemma unavailable_offline:
  "unavailable (ErrorObj ''Failed to fetch'')
     = Some \<lparr>status_r = 503, statusText = ''Failed to fetch'', body = ''Language data unavailable offline.''\<rparr>"
  by (simp add: unavailable_def validStatusText_def)

lemma rejected_fetch_is_not_cached:
  assumes fetching: "pcs s i = Fetching"
    and fails: "net i = Inl e"
    and miss: "cache s (url (reqs i)) = None"
    and later: "j \<noteq> i" "pcs s j = Start"
    and sameKey: "url (reqs j) = url (reqs i)"
    and path: "startsWith (pathname (reqs j)) ''/tesseract/''"
  shows "cache (step reqs net i s) = cache s
         \<and> pcs (step reqs net i s) i = (case unavailable e of Some r \<Rightarrow> Done r | None \<Rightarrow> Rejected)
         \<and> fetched (step reqs net j (step reqs net i s)) = fetched s @ [reqs j]
         \<and> pcs (step reqs net j (step reqs net i s)) j = Fetching"
  using assms by (simp add: step_def split: option.splits)

text \<open>
  C3 at a concrete input. The network answers the request for
  \<^verbatim>\<open>/tesseract/eng.traineddata.gz\<close> with status 404. The first handler fetches, answers
  with the 404 response and puts it into the cache; the second handler, started after
  that, finds the 404 response in the cache and answers with it: one network fetch in
  all, and the failure is served from the cache. When the fetch throws instead, nothing
  is stored and the second handler fetches again.
\<close>

theorem error_response_is_cached:
  "status_r notFound = 404
   \<and> fetched (run engRequests missingNet [0, 0, 0, 1] (idle emptyCache)) = [engRequest]
   \<and> answer (pcs (run engRequests missingNet [0, 0, 0, 1] (idle emptyCache)) 0) = Some notFound
   \<and> cache (run engRequests missingNet [0, 0, 0, 1] (idle emptyCache)) (url engRequest) = Some notFound
   \<and> answer (pcs (run engRequests missingNet [0, 0, 0, 1] (idle emptyCache)) 1) = Some notFound
   \<and> fetched (run engRequests offlineNet [0, 0, 1] (idle emptyCache)) = [engRequest, engRequest]
   \<and> cache (run engRequests offlineNet [0, 0, 1] (idle emptyCache)) (url engRequest) = None"
  by (simp add: run_def idle_def step_def eng_facts missingNet_def offlineNet_def answer_def
      unavailable_offline notFound_def)

subsection \<open>Single flight in the artifact cache\<close>

text \<open>All calls that waited for a fetch return its outcome, and no other call does.\<close>

lemma release_other: "x \<notin> set ws \<Longrightarrow> release r ws f x = f x"
  by (induction ws arbitrary: f) simp_all

lemma release_waiter: "x \<in> set ws \<Longrightarrow> release r ws f x = Some r"
proof (induction ws arbitrary: f)
  case Nil
  then show ?case by simp
next
  case (Cons c cs)
  show ?case
  proof (cases "x \<in> set cs")
    case True
    then show ?thesis using Cons.IH by simp
  next
    case False
    with Cons.prems have "x = c" by simp
    with False show ?thesis by (simp add: release_other)
  qed
qed

lemma calls_join:
  "\<not> cachedKey s key \<Longrightarrow> inFlight s key = Some ws \<Longrightarrow>
   cacheRun (map (\<lambda>c. EnsureCached c key) cs) s = s\<lparr>inFlight := (inFlight s)(key \<mapsto> ws @ cs)\<rparr>"
proof (induction cs arbitrary: s ws)
  case Nil
  then have "(inFlight s)(key \<mapsto> ws) = inFlight s" by (simp add: fun_upd_idem)
  then show ?case by (simp add: cacheRun_def)
next
  case (Cons c cs)
  let ?s1 = "s\<lparr>inFlight := (inFlight s)(key \<mapsto> ws @ [c])\<rparr>"
  have "cacheRun (map (\<lambda>c. EnsureCached c key) (c # cs)) s
          = cacheRun (map (\<lambda>c. EnsureCached c key) cs) ?s1"
    using Cons.prems by (simp add: cacheRun_def)
  also have "\<dots> = ?s1\<lparr>inFlight := (inFlight ?s1)(key \<mapsto> (ws @ [c]) @ cs)\<rparr>"
    by (rule Cons.IH) (simp_all add: Cons.prems)
  also have "\<dots> = s\<lparr>inFlight := (inFlight s)(key \<mapsto> ws @ c # cs)\<rparr>"
    by simp
  finally show ?case .
qed

lemma calls_share:
  assumes "\<not> cachedKey s key" "inFlight s key = None"
  shows "cacheRun (map (\<lambda>c. EnsureCached c key) (c # cs)) s
           = s\<lparr>inFlight := (inFlight s)(key \<mapsto> c # cs), started := started s @ [key]\<rparr>"
proof -
  let ?s1 = "s\<lparr>inFlight := (inFlight s)(key \<mapsto> [c]), started := started s @ [key]\<rparr>"
  have "cacheRun (map (\<lambda>c. EnsureCached c key) (c # cs)) s
          = cacheRun (map (\<lambda>c. EnsureCached c key) cs) ?s1"
    using assms by (simp add: cacheRun_def)
  also have "\<dots> = ?s1\<lparr>inFlight := (inFlight ?s1)(key \<mapsto> [c] @ cs)\<rparr>"
    by (rule calls_join) (simp_all add: assms)
  also have "\<dots> = s\<lparr>inFlight := (inFlight s)(key \<mapsto> c # cs), started := started s @ [key]\<rparr>"
    by simp
  finally show ?thesis .
qed

text \<open>
  C2. For a key that is not cached and has no fetch in flight, when any number of callers
  (at least one) call \<^verbatim>\<open>ensureCached\<close> for the key before the fetch settles, one fetch for
  the key is started, by the first call, and the others wait on its handle; when the
  fetch settles with outcome \<open>r\<close>, still one fetch has been started, every caller returns
  \<open>r\<close> (all succeed or all fail with the same failure), the key is marked cached exactly
  when the fetch succeeded, and no fetch for the key is in flight.
\<close>

theorem single_flight:
  assumes cold: "\<not> cachedKey s key" "inFlight s key = None"
    and some: "callers \<noteq> []"
  shows "started (cacheRun (map (\<lambda>c. EnsureCached c key) callers) s) = started s @ [key]
         \<and> inFlight (cacheRun (map (\<lambda>c. EnsureCached c key) callers) s) key = Some callers
         \<and> started (cacheRun (map (\<lambda>c. EnsureCached c key) callers @ [FetchSettles key r]) s)
             = started s @ [key]
         \<and> (\<forall>c \<in> set callers.
               returned (cacheRun (map (\<lambda>c. EnsureCached c key) callers @ [FetchSettles key r]) s) c
                 = Some r)
         \<and> cachedKey (cacheRun (map (\<lambda>c. EnsureCached c key) callers @ [FetchSettles key r]) s) key
             = (r = None)
         \<and> inFlight (cacheRun (map (\<lambda>c. EnsureCached c key) callers @ [FetchSettles key r]) s) key
             = None"
proof -
  obtain c cs where callers: "callers = c # cs" using some by (cases callers) auto
  let ?s1 = "cacheRun (map (\<lambda>c. EnsureCached c key) callers) s"
  have s1: "?s1 = s\<lparr>inFlight := (inFlight s)(key \<mapsto> callers), started := started s @ [key]\<rparr>"
    unfolding callers using cold by (rule calls_share)
  have settle: "cacheRun (map (\<lambda>c. EnsureCached c key) callers @ [FetchSettles key r]) s
                  = cacheStep (FetchSettles key r) ?s1"
    by (simp add: cacheRun_def)
  show ?thesis
    using cold by (simp add: settle s1 release_waiter)
qed

text \<open>Three calls for \<^verbatim>\<open>eng\<close> on a cold cache whose fetch fails: one fetch, the same failure
  for the three of them, and \<^verbatim>\<open>eng\<close> not marked cached.\<close>

theorem single_flight_witness:
  "\<not> cachedKey coldCache ''eng'' \<and> inFlight coldCache ''eng'' = None
   \<and> started (cacheRun [EnsureCached 3 ''eng'', EnsureCached 4 ''eng'', EnsureCached 5 ''eng'',
                          FetchSettles ''eng'' (Some (ErrorObj ''Failed to fetch''))] coldCache)
       = [''eng'']
   \<and> returned (cacheRun [EnsureCached 3 ''eng'', EnsureCached 4 ''eng'', EnsureCached 5 ''eng'',
                           FetchSettles ''eng'' (Some (ErrorObj ''Failed to fetch''))] coldCache) 3
       = Some (Some (ErrorObj ''Failed to fetch''))
   \<and> returned (cacheRun [EnsureCached 3 ''eng'', EnsureCached 4 ''eng'', EnsureCached 5 ''eng'',
                           FetchSettles ''eng'' (Some (ErrorObj ''Failed to fetch''))] coldCache) 4
       = Some (Some (ErrorObj ''Failed to fetch''))
   \<and> returned (cacheRun [EnsureCached 3 ''eng'', EnsureCached 4 ''eng'', EnsureCached 5 ''eng'',
                           FetchSettles ''eng'' (Some (ErrorObj ''Failed to fetch''))] coldCache) 5
       = Some (Some (ErrorObj ''Failed to fetch''))
   \<and> \<not> cachedKey (cacheRun [EnsureCached 3 ''eng'', EnsureCached 4 ''eng'', EnsureCached 5 ''eng'',
                           FetchSettles ''eng'' (Some (ErrorObj ''Failed to fetch''))] coldCache) ''eng''"
  using single_flight [of coldCache "''eng''" "[3, 4, 5]" "Some (ErrorObj ''Failed to fetch'')"]
  by (simp add: coldCache_def)

end
